(* ===== verification/Prelude.thy ===== *)
theory Prelude
  imports Main
begin

text \<open>
  Shared vocabulary of the ponder realtime-sync development: the names of the
  scalar types of the JSON-RPC and SQLite rows, the result type of fallible
  code, a monadic map over results (the \<open>forEach\<close> loops that may throw), and
  the generic list lemmas the component theories share.
\<close>

section \<open>Types of the model\<close>

type_synonym hash = string
type_synonym address = string
type_synonym block_number = nat
type_synonym timestamp = nat

section \<open>Results of fallible code\<close>

text \<open>
  The errors the sources throw, one constructor per \<open>throw\<close> (or per
  \<open>TypeError\<close> an undefined value would raise). They are shared by the
  components because the realtime worker catches all of them in one
  \<open>onError\<close> hook.
\<close>

datatype sync_error =
    OldIntervalNotFound
  | UnableToFetchLatestBlock
  | UnableToFetchFinalizedBlock
  | MustCallSetup
  | FailedToFetchBlockNumber nat
  | FailedToFetchParentBlock hash
  | GetLogsFailed hash
  | FinalizedBlockUndefined nat
  | HeadBlockUndefined

text \<open>
  A JavaScript \<open>throw\<close> is the left injection of a sum, a normal return the
  right one: \<open>'e + 'a\<close>.
\<close>

fun map_result :: "('a \<Rightarrow> 'e + 'b) \<Rightarrow> 'a list \<Rightarrow> 'e + 'b list" where
  "map_result f [] = Inr []"
| "map_result f (x # xs) =
     (case f x of
        Inl e \<Rightarrow> Inl e
      | Inr y \<Rightarrow> (case map_result f xs of Inl e \<Rightarrow> Inl e | Inr ys \<Rightarrow> Inr (y # ys)))"

named_theorems prelude_simps "generic rewrite rules shared by the component theories"

lemma map_result_Inr_iff [prelude_simps]:
  "map_result f xs = Inr ys \<longleftrightarrow> list_all2 (\<lambda>x y. f x = Inr y) xs ys"
proof (induction xs arbitrary: ys)
  case Nil
  then show ?case by auto
next
  case (Cons x xs)
  show ?case
  proof (cases ys)
    case Nil
    then show ?thesis by (auto split: sum.splits)
  next
    case (Cons y ys')
    have "map_result f (x # xs) = Inr (y # ys') \<longleftrightarrow> f x = Inr y \<and> map_result f xs = Inr ys'"
      by (auto split: sum.splits)
    with Cons Cons.IH show ?thesis by simp
  qed
qed

lemma map_result_total:
  assumes "\<And>x. x \<in> set xs \<Longrightarrow> \<exists>y. f x = Inr y"
  shows "\<exists>ys. map_result f xs = Inr ys"
  using assms
proof (induction xs)
  case Nil
  then show ?case by simp
next
  case (Cons x xs)
  then obtain y where "f x = Inr y" by auto
  moreover from Cons obtain ys where "map_result f xs = Inr ys" by auto
  ultimately show ?case by simp
qed

lemma map_result_map:
  assumes "\<And>x. x \<in> set xs \<Longrightarrow> f x = Inr (g x)"
  shows "map_result f xs = Inr (map g xs)"
  using assms by (induction xs) auto

lemma map_result_Inr_in_set:
  "map_result f xs = Inr ys \<Longrightarrow> y \<in> set ys \<Longrightarrow> \<exists>x \<in> set xs. f x = Inr y"
proof (induction xs arbitrary: ys)
  case (Cons x xs)
  then show ?case by (auto split: sum.splits)
qed simp

lemma map_result_Inl:
  "map_result f xs = Inl e \<Longrightarrow> \<exists>x \<in> set xs. f x = Inl e"
proof (induction xs)
  case (Cons x xs)
  then show ?case by (auto split: sum.splits)
qed simp

section \<open>Lists\<close>

lemma find_Some_in_set [prelude_simps]:
  "find P xs = Some x \<Longrightarrow> x \<in> set xs \<and> P x"
  by (auto simp: find_Some_iff)

lemma find_Some_exists:
  "x \<in> set xs \<Longrightarrow> P x \<Longrightarrow> \<exists>y. find P xs = Some y"
  by (metis find_None_iff option.exhaust)

lemma filter_all_True:
  "\<forall>x \<in> set xs. P x \<Longrightarrow> filter P xs = xs"
  by simp

lemma find_append_list [prelude_simps]:
  "find P (xs @ ys) = (case find P xs of None \<Rightarrow> find P ys | Some x \<Rightarrow> Some x)"
  by (induction xs) auto

lemma map_result_first_Inl:
  "map_result f xs = Inl e \<Longrightarrow>
     \<exists>ys x zs. xs = ys @ x # zs \<and> f x = Inl e \<and> (\<forall>y \<in> set ys. \<exists>v. f y = Inr v)"
proof (induction xs)
  case (Cons a xs)
  show ?case
  proof (cases "f a")
    case (Inl e')
    with Cons.prems have "e' = e" by simp
    with Inl show ?thesis by (intro exI[of _ "[]"]) auto
  next
    case (Inr v)
    with Cons.prems have "map_result f xs = Inl e" by (auto split: sum.splits)
    from Cons.IH[OF this] obtain ys x zs where "xs = ys @ x # zs" "f x = Inl e" "\<forall>y \<in> set ys. \<exists>v. f y = Inr v"
      by blast
    with Inr show ?thesis by (intro exI[of _ "a # ys"]) auto
  qed
qed simp

lemma upt_eq_append_Cons:
  "[a..<b] = ys @ x # zs \<Longrightarrow> ys = [a..<x] \<and> a \<le> x \<and> x < b"
proof (induction ys arbitrary: a)
  case Nil
  then show ?case by (cases "a < b") (auto simp: upt_rec[of a b])
next
  case (Cons y ys)
  then have "a < b" "y = a" "[Suc a..<b] = ys @ x # zs" by (auto simp: upt_rec[of a b] split: if_splits)
  with Cons.IH[of "Suc a"] show ?case by (simp add: upt_rec[of a x])
qed

end
