(* ===== verification/Intervals.thy ===== *)
theory Intervals
  imports Prelude
begin

text \<open>
  The cached-interval table of the SQLite cache store
  (\<open>src/packages/core/src/database/cache/sqliteCacheStore.ts\<close>,
  \<open>getCachedIntervals\<close> and \<open>insertCachedInterval\<close>) together with the
  interval merge it calls (\<open>merge_intervals\<close> of \<open>@/common/utils\<close>, which is
  not among the sources and is modelled from the merge rule of the spec, section 3).
  A table is the list of its rows in row-id order. The lemmas show that the merge
  yields the canonical (sorted, disjoint, non-adjacent) representation of the
  union of its inputs, that canonical representations are unique, and from
  these: the table invariant, the covered set after an insert, idempotence and
  order independence of inserts, and that the "endBlock not found" error of
  \<open>insertCachedInterval\<close> can never be thrown.
\<close>

section \<open>Rows and merge\<close>

record cached_interval =
  contractAddress :: address
  startBlock :: block_number
  endBlock :: block_number
  endBlockTimestamp :: timestamp

type_synonym interval_table = "cached_interval list"

text \<open>
  \<open>merge_intervals\<close>: sort the \<open>[start, end]\<close> pairs by start, then sweep,
  extending the last output interval while the next one starts at most one
  block after its end (overlapping or adjacent intervals are merged).
\<close>

fun merge_sorted :: "(nat \<times> nat) list \<Rightarrow> (nat \<times> nat) list" where
  "merge_sorted [] = []"
| "merge_sorted [x] = [x]"
| "merge_sorted ((a, b) # (c, d) # xs) =
     (if c \<le> b + 1 then merge_sorted ((a, max b d) # xs)
      else (a, b) # merge_sorted ((c, d) # xs))"

definition merge_intervals :: "(nat \<times> nat) list \<Rightarrow> (nat \<times> nat) list" where
  "merge_intervals xs = merge_sorted (sort_key fst xs)"

section \<open>The cache store operations\<close>

definition getCachedIntervals :: "interval_table \<Rightarrow> address \<Rightarrow> cached_interval list" where
  "getCachedIntervals tbl c = filter (\<lambda>r. contractAddress r = c) tbl"

definition range_of :: "cached_interval \<Rightarrow> nat \<times> nat" where
  "range_of r = (startBlock r, endBlock r)"

text \<open>
  One merged interval becomes a row whose \<open>endBlockTimestamp\<close> is that of the
  first of \<open>[newInterval, ...existingIntervals]\<close> with the same \<open>endBlock\<close>;
  when there is none the transaction throws.
\<close>

definition merged_row ::
  "cached_interval \<Rightarrow> cached_interval list \<Rightarrow> nat \<times> nat \<Rightarrow> sync_error + cached_interval" where
  "merged_row new existing m =
     (case find (\<lambda>old. endBlock old = snd m) (new # existing) of
        None \<Rightarrow> Inl OldIntervalNotFound
      | Some old \<Rightarrow> Inr \<lparr>contractAddress = contractAddress new, startBlock = fst m,
                         endBlock = snd m, endBlockTimestamp = endBlockTimestamp old\<rparr>)"

text \<open>
  The transaction deletes (and returns) every row of the contract, then inserts
  either the new row alone or the merged rows; a throw rolls the whole
  transaction back, which is the \<open>Inl\<close> result with the table untouched.
\<close>

definition insertCachedInterval ::
  "interval_table \<Rightarrow> cached_interval \<Rightarrow> sync_error + interval_table" where
  "insertCachedInterval tbl new =
     (let existing = getCachedIntervals tbl (contractAddress new);
          rest = filter (\<lambda>r. contractAddress r \<noteq> contractAddress new) tbl
      in if existing = [] then Inr (rest @ [new])
         else (case map_result (merged_row new existing)
                      (merge_intervals (map range_of existing @ [range_of new])) of
                 Inl e \<Rightarrow> Inl e
               | Inr rows \<Rightarrow> Inr (rest @ rows)))"

text \<open>
  \<open>insertLogFilterCachedRanges\<close> of the event store (not among the sources;
  modelled from the spec, section 4.1): one interval write per log-filter key,
  all in one transaction, so the first error aborts all of them.
\<close>

fun insertLogFilterCachedRanges ::
  "interval_table \<Rightarrow> address list \<Rightarrow> block_number \<Rightarrow> block_number \<Rightarrow> timestamp
   \<Rightarrow> sync_error + interval_table" where
  "insertLogFilterCachedRanges tbl [] s e ts = Inr tbl"
| "insertLogFilterCachedRanges tbl (k # ks) s e ts =
     (case insertCachedInterval tbl
             \<lparr>contractAddress = k, startBlock = s, endBlock = e, endBlockTimestamp = ts\<rparr> of
        Inl err \<Rightarrow> Inl err
      | Inr tbl' \<Rightarrow> insertLogFilterCachedRanges tbl' ks s e ts)"

section \<open>Invariant and abstraction\<close>

fun canonical :: "(nat \<times> nat) list \<Rightarrow> bool" where
  "canonical [] = True"
| "canonical [(a, b)] = (a \<le> b)"
| "canonical ((a, b) # (c, d) # xs) = (a \<le> b \<and> b + 1 < c \<and> canonical ((c, d) # xs))"

definition cover :: "(nat \<times> nat) list \<Rightarrow> nat set" where
  "cover xs = (\<Union>(a, b) \<in> set xs. {a..b})"

definition valid_ranges :: "(nat \<times> nat) list \<Rightarrow> bool" where
  "valid_ranges xs = (\<forall>(a, b) \<in> set xs. a \<le> b)"

definition ranges_of :: "interval_table \<Rightarrow> address \<Rightarrow> (nat \<times> nat) list" where
  "ranges_of tbl c = map range_of (getCachedIntervals tbl c)"

definition table_wf :: "interval_table \<Rightarrow> bool" where
  "table_wf tbl = (\<forall>r \<in> set tbl. canonical (ranges_of tbl (contractAddress r)))"

section \<open>The merge sweep\<close>

lemma merge_sorted_hd:
  "xs \<noteq> [] \<Longrightarrow> merge_sorted xs \<noteq> [] \<and> fst (hd (merge_sorted xs)) = fst (hd xs)
     \<and> snd (hd xs) \<le> snd (hd (merge_sorted xs))"
proof (induction xs rule: merge_sorted.induct)
  case (3 a b c d xs)
  then show ?case by (cases "c \<le> b + 1") auto
qed auto

lemma cover_Nil [simp]: "cover [] = {}" by (simp add: cover_def)
lemma cover_Cons [simp]: "cover ((a, b) # xs) = {a..b} \<union> cover xs" by (simp add: cover_def)
lemma cover_append [simp]: "cover (xs @ ys) = cover xs \<union> cover ys" by (simp add: cover_def)

lemma merge_two_cover:
  "(a::nat) \<le> c \<Longrightarrow> c \<le> b + 1 \<Longrightarrow> {a..b} \<union> {c..d} = {a..max b d}"
  by (auto simp: max_def)

lemma merge_sorted_cover:
  "sorted (map fst xs) \<Longrightarrow> cover (merge_sorted xs) = cover xs"
proof (induction xs rule: merge_sorted.induct)
  case (3 a b c d xs)
  show ?case
  proof (cases "c \<le> b + 1")
    case True
    with "3.prems" have "sorted (map fst ((a, max b d) # xs))" by simp
    with True "3.IH"(1) have "cover (merge_sorted ((a, max b d) # xs)) = {a..max b d} \<union> cover xs"
      by simp
    moreover from "3.prems" True have "{a..b} \<union> {c..d} = {a..max b d}"
      by (intro merge_two_cover) auto
    ultimately show ?thesis using True by auto
  next
    case False
    with "3.prems" "3.IH"(2) show ?thesis by simp
  qed
qed simp_all

lemma merge_sorted_canonical:
  "sorted (map fst xs) \<Longrightarrow> valid_ranges xs \<Longrightarrow> canonical (merge_sorted xs)"
proof (induction xs rule: merge_sorted.induct)
  case (2 x)
  then show ?case by (cases x) (simp add: valid_ranges_def)
next
  case (3 a b c d xs)
  show ?case
  proof (cases "c \<le> b + 1")
    case True
    with "3.prems" "3.IH"(1) show ?thesis by (simp add: valid_ranges_def le_max_iff_disj)
  next
    case False
    obtain d' ys where m: "merge_sorted ((c, d) # xs) = (c, d') # ys" "d \<le> d'"
      using merge_sorted_hd [of "(c, d) # xs"] by (cases "merge_sorted ((c, d) # xs)") auto
    from False "3.prems" "3.IH"(2) have "canonical (merge_sorted ((c, d) # xs))"
      by (simp add: valid_ranges_def)
    with False m "3.prems" show ?thesis by (simp add: valid_ranges_def)
  qed
qed simp

lemma merge_sorted_ends:
  "(s, e) \<in> set (merge_sorted xs) \<Longrightarrow> e \<in> snd ` set xs"
proof (induction xs rule: merge_sorted.induct)
  case (3 a b c d xs)
  then show ?case
    by (cases "c \<le> b + 1") (force simp: max_def split: if_splits)+
qed auto

section \<open>Canonical interval lists\<close>

lemma canonical_ConsD:
  "canonical ((a, b) # xs) \<Longrightarrow> a \<le> b \<and> canonical xs"
  by (cases xs rule: canonical.cases) auto

lemma canonical_tail_above:
  "canonical ((a, b) # xs) \<Longrightarrow> x \<in> cover xs \<Longrightarrow> b + 1 < x"
proof (induction xs arbitrary: a b)
  case (Cons y xs)
  obtain c d where y: "y = (c, d)" by fastforce
  with Cons.prems(1) have "b + 1 < c" "c \<le> d" "canonical ((c, d) # xs)"
    by (auto dest: canonical_ConsD)
  with Cons.IH [of c d] Cons.prems(2) y show ?case by force
qed simp

lemma canonical_cover_empty:
  "canonical xs \<Longrightarrow> cover xs = {} \<longleftrightarrow> xs = []"
  by (cases xs rule: canonical.cases) auto

lemma canonical_unique:
  "canonical xs \<Longrightarrow> canonical ys \<Longrightarrow> cover xs = cover ys \<Longrightarrow> xs = ys"
proof (induction xs arbitrary: ys)
  case Nil
  then show ?case using canonical_cover_empty by metis
next
  case (Cons x xs)
  obtain a b where x: "x = (a, b)" by fastforce
  from Cons.prems x have "ys \<noteq> []" using canonical_cover_empty by force
  then obtain c d ys' where ys: "ys = (c, d) # ys'" by (metis list.exhaust surj_pair)
  have ab: "a \<le> b" "canonical xs" using Cons.prems(1) x by (auto dest: canonical_ConsD)
  have cd: "c \<le> d" "canonical ys'" using Cons.prems(2) ys by (auto dest: canonical_ConsD)
  have above_x: "\<And>z. z \<in> cover xs \<Longrightarrow> b + 1 < z"
    using Cons.prems(1) x canonical_tail_above by blast
  have above_y: "\<And>z. z \<in> cover ys' \<Longrightarrow> d + 1 < z"
    using Cons.prems(2) ys canonical_tail_above by blast
  have cov: "{a..b} \<union> cover xs = {c..d} \<union> cover ys'"
    using Cons.prems(3) x ys by simp
  have "a = c"
  proof -
    have "c \<in> {a..b} \<union> cover xs" using cov cd by auto
    then have "a \<le> c" using above_x ab by force
    moreover have "a \<in> {c..d} \<union> cover ys'" using cov ab by auto
    then have "c \<le> a" using above_y cd by force
    ultimately show ?thesis by simp
  qed
  moreover have "b = d"
  proof (rule ccontr)
    assume "b \<noteq> d"
    then show False
    proof (cases "b < d")
      case True
      then have "b + 1 \<in> {c..d} \<union> cover ys'" using \<open>a = c\<close> ab by auto
      then have "b + 1 \<in> {a..b} \<union> cover xs" using cov by simp
      then show False using above_x by force
    next
      case False
      with \<open>b \<noteq> d\<close> have "d + 1 \<in> {a..b} \<union> cover xs" using \<open>a = c\<close> cd by auto
      then have "d + 1 \<in> {c..d} \<union> cover ys'" using cov by simp
      then show False using above_y by force
    qed
  qed
  moreover have "cover xs = cover ys'"
  proof -
    have "cover xs = ({a..b} \<union> cover xs) - {a..b}" using above_x by force
    also have "\<dots> = ({c..d} \<union> cover ys') - {c..d}" using cov \<open>a = c\<close> \<open>b = d\<close> by simp
    also have "\<dots> = cover ys'" using above_y by force
    finally show ?thesis .
  qed
  ultimately show ?case using Cons.IH ab cd x ys by simp
qed


section \<open>Merge correctness\<close>

lemma cover_set_eq: "set xs = set ys \<Longrightarrow> cover xs = cover ys"
  by (simp add: cover_def)

lemma merge_intervals_cover: "cover (merge_intervals xs) = cover xs"
proof -
  have "cover (merge_intervals xs) = cover (sort_key fst xs)"
    unfolding merge_intervals_def by (rule merge_sorted_cover) (rule sorted_sort_key)
  also have "\<dots> = cover xs" by (rule cover_set_eq) simp
  finally show ?thesis .
qed

lemma merge_intervals_canonical: "valid_ranges xs \<Longrightarrow> canonical (merge_intervals xs)"
  unfolding merge_intervals_def
  by (rule merge_sorted_canonical) (auto simp: valid_ranges_def)

lemma merge_intervals_ends: "(s, e) \<in> set (merge_intervals xs) \<Longrightarrow> e \<in> snd ` set xs"
  unfolding merge_intervals_def by (drule merge_sorted_ends) simp

lemma merge_intervals_single [simp]: "merge_intervals [r] = [r]"
  by (simp add: merge_intervals_def)

lemma canonical_valid: "canonical xs \<Longrightarrow> valid_ranges xs"
  by (induction xs rule: canonical.induct) (auto simp: valid_ranges_def)

lemma valid_ranges_append [simp]: "valid_ranges (xs @ ys) \<longleftrightarrow> valid_ranges xs \<and> valid_ranges ys"
  by (auto simp: valid_ranges_def)

lemma valid_ranges_single [simp]: "valid_ranges [(a, b)] \<longleftrightarrow> a \<le> b"
  by (simp add: valid_ranges_def)

lemma merge_intervals_canonical_id: "canonical xs \<Longrightarrow> merge_intervals xs = xs"
  by (rule canonical_unique)
     (simp_all add: merge_intervals_canonical canonical_valid merge_intervals_cover)

section \<open>Table operations\<close>

lemma merged_row_Inr:
  "merged_row new existing m = Inr r \<Longrightarrow> range_of r = m \<and> contractAddress r = contractAddress new"
  by (auto simp: merged_row_def range_of_def split: option.splits)

lemma merged_row_total:
  assumes "old0 \<in> set (new # existing)" and "endBlock old0 = snd m"
  shows "\<exists>r. merged_row new existing m = Inr r"
proof -
  obtain old where "find (\<lambda>old. endBlock old = snd m) (new # existing) = Some old"
    using find_Some_exists[of old0 "new # existing" "\<lambda>old. endBlock old = snd m"] assms
    by blast
  then show ?thesis by (simp add: merged_row_def)
qed

lemma getCachedIntervals_append:
  "getCachedIntervals (xs @ ys) c = getCachedIntervals xs c @ getCachedIntervals ys c"
  by (simp add: getCachedIntervals_def)

lemma ranges_of_rest:
  "ranges_of (filter (\<lambda>r. contractAddress r \<noteq> a) tbl) c = (if c = a then [] else ranges_of tbl c)"
  by (cases "c = a")
     (auto simp: ranges_of_def getCachedIntervals_def filter_filter
           intro!: arg_cong[where f = "map range_of"] filter_cong)

lemma ranges_of_append:
  "ranges_of (xs @ ys) c = ranges_of xs c @ ranges_of ys c"
  by (simp add: ranges_of_def getCachedIntervals_def)

lemma ranges_of_same:
  "\<forall>r \<in> set rows. contractAddress r = a \<Longrightarrow>
   ranges_of rows c = (if c = a then map range_of rows else [])"
  by (auto simp: ranges_of_def getCachedIntervals_def filter_id_conv)

lemma ranges_of_existing:
  "map range_of (getCachedIntervals tbl c) = ranges_of tbl c"
  by (simp add: ranges_of_def)

lemma insertCachedInterval_rows:
  assumes "map_result (merged_row new existing) ms = Inr rows"
  shows "map range_of rows = ms" and "\<forall>r \<in> set rows. contractAddress r = contractAddress new"
proof -
  have all: "list_all2 (\<lambda>x y. merged_row new existing x = Inr y) ms rows"
    using assms by (simp add: map_result_Inr_iff)
  then show "map range_of rows = ms"
    by (induction rule: list_all2_induct) (auto dest: merged_row_Inr)
  from all show "\<forall>r \<in> set rows. contractAddress r = contractAddress new"
    by (induction rule: list_all2_induct) (auto dest: merged_row_Inr)
qed

lemma insertCachedInterval_never_fails:
  "\<exists>tbl'. insertCachedInterval tbl new = Inr tbl'"
proof -
  let ?ex = "getCachedIntervals tbl (contractAddress new)"
  let ?ms = "merge_intervals (map range_of ?ex @ [range_of new])"
  have "\<And>m. m \<in> set ?ms \<Longrightarrow> \<exists>r. merged_row new ?ex m = Inr r"
  proof -
    fix m assume m: "m \<in> set ?ms"
    obtain s e where "m = (s, e)" by fastforce
    with m have "e \<in> snd ` set (map range_of ?ex @ [range_of new])"
      by (simp add: merge_intervals_ends del: set_append)
    with \<open>m = (s, e)\<close> obtain old0 where "old0 \<in> set (new # ?ex)" "endBlock old0 = snd m"
      by (force simp: range_of_def)
    then show "\<exists>r. merged_row new ?ex m = Inr r" by (rule merged_row_total)
  qed
  then obtain rows where "map_result (merged_row new ?ex) ?ms = Inr rows"
    using map_result_total by blast
  then show ?thesis by (simp add: insertCachedInterval_def Let_def)
qed

lemma insertCachedInterval_ranges:
  assumes "insertCachedInterval tbl new = Inr tbl'"
  shows "ranges_of tbl' c =
           (if c = contractAddress new
            then merge_intervals (ranges_of tbl c @ [range_of new]) else ranges_of tbl c)"
proof (cases "getCachedIntervals tbl (contractAddress new) = []")
  case True
  then have "tbl' = filter (\<lambda>r. contractAddress r \<noteq> contractAddress new) tbl @ [new]"
    using assms by (simp add: insertCachedInterval_def Let_def)
  moreover have "ranges_of tbl (contractAddress new) = []"
    using True by (simp add: ranges_of_def)
  ultimately show ?thesis
    by (simp add: ranges_of_append ranges_of_rest ranges_of_same[of "[new]" "contractAddress new"])
next
  case False
  let ?ex = "getCachedIntervals tbl (contractAddress new)"
  let ?ms = "merge_intervals (map range_of ?ex @ [range_of new])"
  from False assms obtain rows where rows: "map_result (merged_row new ?ex) ?ms = Inr rows"
    and t: "tbl' = filter (\<lambda>r. contractAddress r \<noteq> contractAddress new) tbl @ rows"
    by (auto simp: insertCachedInterval_def Let_def split: sum.splits)
  show ?thesis
    using insertCachedInterval_rows(1)[OF rows] t
    by (simp add: ranges_of_append ranges_of_rest ranges_of_existing
                  ranges_of_same[OF insertCachedInterval_rows(2)[OF rows]])
qed

section \<open>The table invariant and the covered sets\<close>

lemma table_wf_iff: "table_wf tbl \<longleftrightarrow> (\<forall>c. canonical (ranges_of tbl c))"
proof
  assume wf: "table_wf tbl"
  show "\<forall>c. canonical (ranges_of tbl c)"
  proof
    fix c
    show "canonical (ranges_of tbl c)"
    proof (cases "\<exists>r \<in> set tbl. contractAddress r = c")
      case True
      with wf show ?thesis by (auto simp: table_wf_def)
    next
      case False
      then have "ranges_of tbl c = []" by (auto simp: ranges_of_def getCachedIntervals_def filter_empty_conv)
      then show ?thesis by simp
    qed
  qed
qed (simp add: table_wf_def)

lemma insertCachedInterval_wf:
  assumes "table_wf tbl" "startBlock new \<le> endBlock new" "insertCachedInterval tbl new = Inr tbl'"
  shows "table_wf tbl'"
  unfolding table_wf_iff
proof
  fix c
  have "valid_ranges (ranges_of tbl c @ [range_of new])"
    using assms(1,2) by (simp add: table_wf_iff canonical_valid range_of_def)
  then show "canonical (ranges_of tbl' c)"
    using assms(1) insertCachedInterval_ranges[OF assms(3), of c]
    by (cases "c = contractAddress new") (simp_all add: merge_intervals_canonical table_wf_iff)
qed

lemma insertCachedInterval_cover:
  assumes "insertCachedInterval tbl new = Inr tbl'"
  shows "cover (ranges_of tbl' c) =
           cover (ranges_of tbl c) \<union>
           (if c = contractAddress new then {startBlock new..endBlock new} else {})"
  using insertCachedInterval_ranges[OF assms] by (simp add: merge_intervals_cover range_of_def)

lemma insertCachedInterval_canonical_eq:
  assumes "table_wf tbl" "startBlock new \<le> endBlock new" "insertCachedInterval tbl new = Inr tbl'"
    and "canonical xs" "cover xs = cover (ranges_of tbl' c)"
  shows "ranges_of tbl' c = xs"
  using assms insertCachedInterval_wf[OF assms(1-3)] canonical_unique
  by (metis table_wf_iff)

lemma merged_row_timestamp:
  assumes "merged_row new existing m = Inr r"
  shows "\<exists>old \<in> set (new # existing). endBlock old = endBlock r
           \<and> endBlockTimestamp old = endBlockTimestamp r \<and> (endBlock new = endBlock r \<longrightarrow> old = new)"
proof -
  obtain old where f: "find (\<lambda>old. endBlock old = snd m) (new # existing) = Some old"
    and r: "r = \<lparr>contractAddress = contractAddress new, startBlock = fst m,
                endBlock = snd m, endBlockTimestamp = endBlockTimestamp old\<rparr>"
    using assms by (auto simp: merged_row_def split: option.splits)
  have "old \<in> set (new # existing)" "endBlock old = snd m"
    using find_Some_in_set[OF f] by blast+
  moreover from f have "endBlock new = snd m \<Longrightarrow> old = new" by simp
  ultimately show ?thesis using r by auto
qed

lemma insertCachedInterval_ends_le:
  assumes "insertCachedInterval tbl new = Inr tbl'"
    and "\<forall>r \<in> set tbl. endBlock r \<le> k" and "endBlock new \<le> k"
  shows "\<forall>r \<in> set tbl'. endBlock r \<le> k"
proof
  fix r assume r: "r \<in> set tbl'"
  let ?ex = "getCachedIntervals tbl (contractAddress new)"
  let ?ms = "merge_intervals (map range_of ?ex @ [range_of new])"
  show "endBlock r \<le> k"
  proof (cases "?ex = []")
    case True
    with assms(1) r have "r \<in> set tbl \<or> r = new" by (auto simp: insertCachedInterval_def)
    with assms(2,3) show ?thesis by blast
  next
    case False
    from False assms(1) obtain rows where rows: "map_result (merged_row new ?ex) ?ms = Inr rows"
      and t: "tbl' = filter (\<lambda>r. contractAddress r \<noteq> contractAddress new) tbl @ rows"
      by (auto simp: insertCachedInterval_def Let_def split: sum.splits)
    show ?thesis
    proof (cases "r \<in> set rows")
      case True
      then obtain m where "m \<in> set ?ms" "merged_row new ?ex m = Inr r"
        using map_result_Inr_in_set[OF rows] by blast
      moreover obtain s e where se: "m = (s, e)" by fastforce
      ultimately have er: "endBlock r = e" and ms: "(s, e) \<in> set ?ms"
        using merged_row_Inr[of new ?ex m r] by (auto simp: range_of_def)
      from ms have "e \<in> snd ` set (map range_of ?ex @ [range_of new])"
        by (rule merge_intervals_ends)
      then have "\<exists>x \<in> set (new # ?ex). endBlock x = e"
        by (force simp: range_of_def)
      with er assms(2,3) show ?thesis by (auto simp: getCachedIntervals_def)
    next
      case False
      with r t assms(2) show ?thesis by auto
    qed
  qed
qed

lemma insertLogFilterCachedRanges_wf_ends:
  assumes "insertLogFilterCachedRanges tbl ks s e ts = Inr tbl'"
    and "table_wf tbl" "s \<le> e" "\<forall>r \<in> set tbl. endBlock r \<le> k" "e \<le> k"
  shows "table_wf tbl' \<and> (\<forall>r \<in> set tbl'. endBlock r \<le> k)"
  using assms
proof (induction ks arbitrary: tbl)
  case Nil
  then show ?case by simp
next
  case (Cons c ks)
  let ?i = "\<lparr>contractAddress = c, startBlock = s, endBlock = e, endBlockTimestamp = ts\<rparr>"
  obtain t1 where t1: "insertCachedInterval tbl ?i = Inr t1"
    using insertCachedInterval_never_fails by blast
  with Cons.prems(1) have rest: "insertLogFilterCachedRanges t1 ks s e ts = Inr tbl'" by simp
  have "table_wf t1" using insertCachedInterval_wf[OF Cons.prems(2) _ t1] Cons.prems(3) by simp
  moreover have "\<forall>r \<in> set t1. endBlock r \<le> k"
    using insertCachedInterval_ends_le[OF t1] Cons.prems(4,5) by simp
  ultimately show ?case using Cons.IH[OF rest] Cons.prems(3,5) by blast
qed

lemma insertLogFilterCachedRanges_Inr:
  "\<exists>tbl'. insertLogFilterCachedRanges tbl ks s e ts = Inr tbl'"
proof (induction ks arbitrary: tbl)
  case (Cons k ks)
  obtain t1 where "insertCachedInterval tbl
      \<lparr>contractAddress = k, startBlock = s, endBlock = e, endBlockTimestamp = ts\<rparr> = Inr t1"
    using insertCachedInterval_never_fails by blast
  with Cons.IH[of t1] show ?case by simp
qed simp

text \<open>An inverted range \<open>[e + 1, e]\<close> written for keys with no other
  interval stays the only range of each of them.\<close>

lemma insertLogFilterCachedRanges_inverted:
  assumes "insertLogFilterCachedRanges tbl ks (Suc e) e ts = Inr tbl'"
    and "ranges_of tbl k = [] \<or> ranges_of tbl k = [(Suc e, e)]"
  shows "ranges_of tbl' k = (if k \<in> set ks then [(Suc e, e)] else ranges_of tbl k)"
  using assms
proof (induction ks arbitrary: tbl)
  case Nil
  then show ?case by simp
next
  case (Cons k' ks)
  from Cons.prems(1) obtain tbl1 where ins:
      "insertCachedInterval tbl \<lparr>contractAddress = k', startBlock = Suc e, endBlock = e, endBlockTimestamp = ts\<rparr> = Inr tbl1"
    and rest: "insertLogFilterCachedRanges tbl1 ks (Suc e) e ts = Inr tbl'"
    by (auto split: sum.splits)
  have m: "merge_intervals [(Suc e, e), (Suc e, e)] = [(Suc e, e)]"
    by (simp add: merge_intervals_def)
  have r1: "ranges_of tbl1 k = (if k = k' then [(Suc e, e)] else ranges_of tbl k)"
    using insertCachedInterval_ranges[OF ins, of k] Cons.prems(2) m by (auto simp: range_of_def)
  then have "ranges_of tbl1 k = [] \<or> ranges_of tbl1 k = [(Suc e, e)]" using Cons.prems(2) by simp
  from Cons.IH[OF rest this] r1 show ?case by (cases "k = k'") simp_all
qed

section \<open>Properties of the interval cache\<close>

text \<open>
  C4. The merge of any list of valid intervals (start at most end) is canonical:
  sorted by start, pairwise disjoint and non-adjacent; and it covers exactly
  the blocks its inputs cover.
\<close>

theorem merge_intervals_correct:
  assumes "valid_ranges xs"
  shows "canonical (merge_intervals xs) \<and> cover (merge_intervals xs) = cover xs"
  using assms by (simp add: merge_intervals_canonical merge_intervals_cover)

theorem merge_intervals_correct_witness:
  "valid_ranges [(30, 40), (10, 20), (20, 35), (41, 50)] \<and>
   canonical (merge_intervals [(30, 40), (10, 20), (20, 35), (41, 50)]) \<and>
   cover (merge_intervals [(30, 40), (10, 20), (20, 35), (41, 50)]) =
     cover [(30, 40), (10, 20), (20, 35), (41, 50)]"
  using merge_intervals_correct [of "[(30, 40), (10, 20), (20, 35), (41, 50)]"]
  by (simp add: valid_ranges_def)

text \<open>
  C15. \<open>insertCachedInterval\<close> never throws "Old interval with endBlock not
  found": every merged end block is the end block of one of the merged rows.
  Its result holds, for the contract written, the merge of the contract's old
  intervals with the new one, and the rows of every other contract unchanged.
\<close>

theorem insertCachedInterval_total:
  "\<exists>tbl'. insertCachedInterval tbl new = Inr tbl' \<and>
     (\<forall>c. ranges_of tbl' c =
            (if c = contractAddress new
             then merge_intervals (ranges_of tbl c @ [range_of new]) else ranges_of tbl c))"
  using insertCachedInterval_never_fails insertCachedInterval_ranges by blast

text \<open>
  C5. Inserting a valid interval into a table whose intervals are canonical per
  contract succeeds and leaves them canonical: for every contract the stored
  intervals stay pairwise non-overlapping and non-adjacent.
\<close>

theorem insertCachedInterval_invariant:
  assumes "table_wf tbl" and "startBlock new \<le> endBlock new"
  shows "\<exists>tbl'. insertCachedInterval tbl new = Inr tbl' \<and> table_wf tbl'"
  using assms insertCachedInterval_never_fails insertCachedInterval_wf by blast

theorem insertCachedInterval_invariant_witness:
  "table_wf [\<lparr>contractAddress = ''C'', startBlock = 10, endBlock = 20, endBlockTimestamp = 20\<rparr>,
             \<lparr>contractAddress = ''C'', startBlock = 30, endBlock = 40, endBlockTimestamp = 40\<rparr>] \<and>
   startBlock \<lparr>contractAddress = ''C'', startBlock = 22, endBlock = 28, endBlockTimestamp = 28\<rparr>
     \<le> endBlock \<lparr>contractAddress = ''C'', startBlock = 22, endBlock = 28, endBlockTimestamp = 28\<rparr> \<and>
   (\<exists>tbl'. insertCachedInterval
       [\<lparr>contractAddress = ''C'', startBlock = 10, endBlock = 20, endBlockTimestamp = 20\<rparr>,
        \<lparr>contractAddress = ''C'', startBlock = 30, endBlock = 40, endBlockTimestamp = 40\<rparr>]
       \<lparr>contractAddress = ''C'', startBlock = 22, endBlock = 28, endBlockTimestamp = 28\<rparr> = Inr tbl'
     \<and> table_wf tbl')"
proof -
  have wf: "table_wf [\<lparr>contractAddress = ''C'', startBlock = 10, endBlock = 20, endBlockTimestamp = 20\<rparr>,
             \<lparr>contractAddress = ''C'', startBlock = 30, endBlock = 40, endBlockTimestamp = 40\<rparr>]"
    by (simp add: table_wf_def ranges_of_def getCachedIntervals_def range_of_def)
  show ?thesis using insertCachedInterval_invariant [OF wf] wf by simp
qed

text \<open>
  C6. Refinement of the table by the sets of blocks it covers: after an insert
  of \<open>[s, e]\<close> for a contract, the blocks covered for that contract are the
  old ones together with \<open>s..e\<close>, and nothing changes for other contracts.
\<close>

theorem insertCachedInterval_refines_union:
  "\<exists>tbl'. insertCachedInterval tbl new = Inr tbl' \<and>
     (\<forall>c. cover (ranges_of tbl' c) =
            cover (ranges_of tbl c) \<union>
            (if c = contractAddress new then {startBlock new..endBlock new} else {}))"
  using insertCachedInterval_never_fails insertCachedInterval_cover by blast

text \<open>
  C16. Idempotence: re-inserting a range that is already covered leaves the
  stored intervals of every contract as they were.
\<close>

theorem insertCachedInterval_idempotent:
  assumes "table_wf tbl" "startBlock new \<le> endBlock new"
    and "{startBlock new..endBlock new} \<subseteq> cover (ranges_of tbl (contractAddress new))"
    and "insertCachedInterval tbl new = Inr tbl'"
  shows "ranges_of tbl' = ranges_of tbl"
proof
  fix c
  have "cover (ranges_of tbl' c) = cover (ranges_of tbl c)"
    using insertCachedInterval_cover[OF assms(4), of c] assms(3) by auto
  then show "ranges_of tbl' c = ranges_of tbl c"
    using insertCachedInterval_canonical_eq[OF assms(1,2,4)] assms(1)
    by (simp add: table_wf_iff)
qed

theorem insertCachedInterval_idempotent_witness:
  "table_wf [\<lparr>contractAddress = ''C'', startBlock = 10, endBlock = 20, endBlockTimestamp = 20\<rparr>] \<and>
   startBlock \<lparr>contractAddress = ''C'', startBlock = 12, endBlock = 15, endBlockTimestamp = 15\<rparr>
     \<le> endBlock \<lparr>contractAddress = ''C'', startBlock = 12, endBlock = 15, endBlockTimestamp = 15\<rparr> \<and>
   {12..15} \<subseteq> cover (ranges_of [\<lparr>contractAddress = ''C'', startBlock = 10, endBlock = 20, endBlockTimestamp = 20\<rparr>] ''C'') \<and>
   insertCachedInterval [\<lparr>contractAddress = ''C'', startBlock = 10, endBlock = 20, endBlockTimestamp = 20\<rparr>]
      \<lparr>contractAddress = ''C'', startBlock = 12, endBlock = 15, endBlockTimestamp = 15\<rparr>
    = Inr [\<lparr>contractAddress = ''C'', startBlock = 10, endBlock = 20, endBlockTimestamp = 20\<rparr>] \<and>
   ranges_of [\<lparr>contractAddress = ''C'', startBlock = 10, endBlock = 20, endBlockTimestamp = 20\<rparr>] =
   ranges_of [\<lparr>contractAddress = ''C'', startBlock = 10, endBlock = 20, endBlockTimestamp = 20\<rparr>]"
proof -
  have wf: "table_wf [\<lparr>contractAddress = ''C'', startBlock = 10, endBlock = 20, endBlockTimestamp = 20\<rparr>]"
    by (simp add: table_wf_def ranges_of_def getCachedIntervals_def range_of_def)
  have cov: "{12..15} \<subseteq> cover (ranges_of [\<lparr>contractAddress = ''C'', startBlock = 10, endBlock = 20, endBlockTimestamp = 20\<rparr>] ''C'')"
    by (simp add: ranges_of_def getCachedIntervals_def range_of_def)
  have ins: "insertCachedInterval [\<lparr>contractAddress = ''C'', startBlock = 10, endBlock = 20, endBlockTimestamp = 20\<rparr>]
      \<lparr>contractAddress = ''C'', startBlock = 12, endBlock = 15, endBlockTimestamp = 15\<rparr>
    = Inr [\<lparr>contractAddress = ''C'', startBlock = 10, endBlock = 20, endBlockTimestamp = 20\<rparr>]"
    by (simp add: insertCachedInterval_def getCachedIntervals_def merge_intervals_def range_of_def merged_row_def)
  show ?thesis
    using insertCachedInterval_idempotent [OF wf _ _ ins] wf cov ins by simp
qed

text \<open>
  C17. Order independence: two inserts applied to a canonical table in either
  order leave the same intervals for every contract.
\<close>

theorem insertCachedInterval_commute:
  assumes "table_wf tbl" "startBlock i1 \<le> endBlock i1" "startBlock i2 \<le> endBlock i2"
    and "insertCachedInterval tbl i1 = Inr t1" "insertCachedInterval t1 i2 = Inr t12"
    and "insertCachedInterval tbl i2 = Inr t2" "insertCachedInterval t2 i1 = Inr t21"
  shows "ranges_of t12 = ranges_of t21"
proof
  fix c
  have wf1: "table_wf t1" and wf2: "table_wf t2"
    using assms insertCachedInterval_wf by blast+
  have "cover (ranges_of t12 c) = cover (ranges_of t21 c)"
    using insertCachedInterval_cover[OF assms(4)] insertCachedInterval_cover[OF assms(5)]
          insertCachedInterval_cover[OF assms(6)] insertCachedInterval_cover[OF assms(7)]
    by auto
  moreover have "canonical (ranges_of t21 c)"
    using insertCachedInterval_wf[OF wf2 assms(2,7)] by (simp add: table_wf_iff)
  ultimately show "ranges_of t12 c = ranges_of t21 c"
    using insertCachedInterval_canonical_eq[OF wf1 assms(3,5)] by simp
qed

theorem insertCachedInterval_commute_witness:
  "table_wf [] \<and>
   startBlock \<lparr>contractAddress = ''C'', startBlock = 1, endBlock = 5, endBlockTimestamp = 5\<rparr>
     \<le> endBlock \<lparr>contractAddress = ''C'', startBlock = 1, endBlock = 5, endBlockTimestamp = 5\<rparr> \<and>
   startBlock \<lparr>contractAddress = ''C'', startBlock = 4, endBlock = 9, endBlockTimestamp = 9\<rparr>
     \<le> endBlock \<lparr>contractAddress = ''C'', startBlock = 4, endBlock = 9, endBlockTimestamp = 9\<rparr> \<and>
   ranges_of [\<lparr>contractAddress = ''C'', startBlock = 1, endBlock = 9, endBlockTimestamp = 9\<rparr>] =
   ranges_of [\<lparr>contractAddress = ''C'', startBlock = 1, endBlock = 9, endBlockTimestamp = 9\<rparr>]"
proof -
  have a: "insertCachedInterval [] \<lparr>contractAddress = ''C'', startBlock = 1, endBlock = 5, endBlockTimestamp = 5\<rparr>
      = Inr [\<lparr>contractAddress = ''C'', startBlock = 1, endBlock = 5, endBlockTimestamp = 5\<rparr>]"
    by (simp add: insertCachedInterval_def getCachedIntervals_def)
  have b: "insertCachedInterval [\<lparr>contractAddress = ''C'', startBlock = 1, endBlock = 5, endBlockTimestamp = 5\<rparr>]
      \<lparr>contractAddress = ''C'', startBlock = 4, endBlock = 9, endBlockTimestamp = 9\<rparr>
      = Inr [\<lparr>contractAddress = ''C'', startBlock = 1, endBlock = 9, endBlockTimestamp = 9\<rparr>]"
    by (simp add: insertCachedInterval_def getCachedIntervals_def merge_intervals_def range_of_def merged_row_def)
  have c: "insertCachedInterval [] \<lparr>contractAddress = ''C'', startBlock = 4, endBlock = 9, endBlockTimestamp = 9\<rparr>
      = Inr [\<lparr>contractAddress = ''C'', startBlock = 4, endBlock = 9, endBlockTimestamp = 9\<rparr>]"
    by (simp add: insertCachedInterval_def getCachedIntervals_def)
  have d: "insertCachedInterval [\<lparr>contractAddress = ''C'', startBlock = 4, endBlock = 9, endBlockTimestamp = 9\<rparr>]
      \<lparr>contractAddress = ''C'', startBlock = 1, endBlock = 5, endBlockTimestamp = 5\<rparr>
      = Inr [\<lparr>contractAddress = ''C'', startBlock = 1, endBlock = 9, endBlockTimestamp = 9\<rparr>]"
    by (simp add: insertCachedInterval_def getCachedIntervals_def merge_intervals_def range_of_def merged_row_def)
  have wf: "table_wf []" by (simp add: table_wf_def)
  show ?thesis using insertCachedInterval_commute [OF wf _ _ a b c d] wf by simp
qed

text \<open>
  C18. Timestamp propagation: every row written for the contract takes its
  \<open>endBlockTimestamp\<close> from a contributing interval (the new one or an old
  row of the contract) with the same end block, and from the new interval
  whenever the new interval ends there.
\<close>

theorem insertCachedInterval_timestamps:
  assumes "insertCachedInterval tbl new = Inr tbl'"
    and "r \<in> set (getCachedIntervals tbl' (contractAddress new))"
  shows "\<exists>old \<in> set (new # getCachedIntervals tbl (contractAddress new)).
           endBlock old = endBlock r \<and> endBlockTimestamp old = endBlockTimestamp r
           \<and> (endBlock new = endBlock r \<longrightarrow> old = new)"
proof (cases "getCachedIntervals tbl (contractAddress new) = []")
  case True
  with assms have "r = new"
    by (auto simp: insertCachedInterval_def getCachedIntervals_def)
  then show ?thesis by simp
next
  case False
  let ?ex = "getCachedIntervals tbl (contractAddress new)"
  let ?ms = "merge_intervals (map range_of ?ex @ [range_of new])"
  from False assms(1) obtain rows where rows: "map_result (merged_row new ?ex) ?ms = Inr rows"
    and t: "tbl' = filter (\<lambda>r. contractAddress r \<noteq> contractAddress new) tbl @ rows"
    by (auto simp: insertCachedInterval_def Let_def split: sum.splits)
  from assms(2) t have "r \<in> set rows"
    by (auto simp: getCachedIntervals_def)
  then obtain m where "merged_row new ?ex m = Inr r"
    using map_result_Inr_in_set[OF rows] by blast
  then show ?thesis by (rule merged_row_timestamp)
qed

theorem insertCachedInterval_timestamps_witness:
  "insertCachedInterval [\<lparr>contractAddress = ''C'', startBlock = 10, endBlock = 20, endBlockTimestamp = 20\<rparr>]
      \<lparr>contractAddress = ''C'', startBlock = 15, endBlock = 20, endBlockTimestamp = 99\<rparr>
    = Inr [\<lparr>contractAddress = ''C'', startBlock = 10, endBlock = 20, endBlockTimestamp = 99\<rparr>] \<and>
   \<lparr>contractAddress = ''C'', startBlock = 10, endBlock = 20, endBlockTimestamp = 99\<rparr>
      \<in> set (getCachedIntervals [\<lparr>contractAddress = ''C'', startBlock = 10, endBlock = 20, endBlockTimestamp = 99\<rparr>] ''C'') \<and>
   endBlockTimestamp \<lparr>contractAddress = ''C'', startBlock = 10, endBlock = 20, endBlockTimestamp = (99::nat)\<rparr> =
   endBlockTimestamp \<lparr>contractAddress = ''C'', startBlock = 15, endBlock = 20, endBlockTimestamp = (99::nat)\<rparr>"
proof -
  have ins: "insertCachedInterval [\<lparr>contractAddress = ''C'', startBlock = 10, endBlock = 20, endBlockTimestamp = 20\<rparr>]
      \<lparr>contractAddress = ''C'', startBlock = 15, endBlock = 20, endBlockTimestamp = 99\<rparr>
    = Inr [\<lparr>contractAddress = ''C'', startBlock = 10, endBlock = 20, endBlockTimestamp = 99\<rparr>]"
    by (simp add: insertCachedInterval_def getCachedIntervals_def merge_intervals_def range_of_def merged_row_def)
  have r: "\<lparr>contractAddress = ''C'', startBlock = 10, endBlock = 20, endBlockTimestamp = 99\<rparr>
      \<in> set (getCachedIntervals [\<lparr>contractAddress = ''C'', startBlock = 10, endBlock = 20, endBlockTimestamp = 99\<rparr>] ''C'')"
    by (simp add: getCachedIntervals_def)
  show ?thesis
    using insertCachedInterval_timestamps [OF ins] r ins by (simp add: getCachedIntervals_def)
qed

text \<open>
  C19. \<open>insertLogFilterCachedRanges\<close> never fails, and afterwards every
  log-filter key covers the written range in addition to what it covered
  before; other contracts are untouched.
\<close>

theorem insertLogFilterCachedRanges_total:
  "\<exists>tbl'. insertLogFilterCachedRanges tbl ks s e ts = Inr tbl' \<and>
     (\<forall>c. cover (ranges_of tbl' c) = cover (ranges_of tbl c) \<union> (if c \<in> set ks then {s..e} else {}))"
proof (induction ks arbitrary: tbl)
  case Nil
  then show ?case by simp
next
  case (Cons k ks)
  let ?i = "\<lparr>contractAddress = k, startBlock = s, endBlock = e, endBlockTimestamp = ts\<rparr>"
  obtain t1 where t1: "insertCachedInterval tbl ?i = Inr t1"
    using insertCachedInterval_never_fails by blast
  obtain t2 where t2: "insertLogFilterCachedRanges t1 ks s e ts = Inr t2"
    and c2: "\<forall>c. cover (ranges_of t2 c) = cover (ranges_of t1 c) \<union> (if c \<in> set ks then {s..e} else {})"
    using Cons.IH by blast
  have "\<forall>c. cover (ranges_of t2 c) = cover (ranges_of tbl c) \<union> (if c \<in> set (k # ks) then {s..e} else {})"
    using c2 insertCachedInterval_cover[OF t1] by auto
  with t1 t2 show ?case by simp
qed

end
