(* ===== verification/CacheStore.thy ===== *)
theory CacheStore
  imports Intervals "HOL-Library.Word"
begin

text \<open>
  The rows of the cache store and the operations of
  \<open>src/packages/core/src/database/cache/sqliteCacheStore.ts\<close> on the
  logs, blocks, transactions and contract-call tables, with the two event-store
  operations the realtime service calls (\<open>insertRealtimeBlock\<close>,
  \<open>deleteRealtimeData\<close>; the event store is not among the sources and they are
  modelled from the spec, section 4.1). A table is the list of its rows in
  insertion order; a primary-key conflict ignored by \<open>ON CONFLICT DO NOTHING\<close>
  leaves the table as it was. The contract-call table is a map. Numbers are kept
  decoded (\<open>nat\<close>), hashes, addresses and topics as strings, and the 2048-bit
  logs bloom as a \<open>2048 word\<close>.
  The lemmas give the consistency invariant of the spec (every stored log
  belongs to a stored block and carries its timestamp), its preservation by
  the realtime writes, and the read operations' behaviour.
\<close>

section \<open>Rows\<close>

record transaction =
  tx_hash :: hash
  tx_nonce :: nat
  tx_from :: address
  tx_to :: "address option"
  tx_value :: nat
  tx_input :: string
  tx_gas :: nat
  tx_gasPrice :: nat
  tx_maxFeePerGas :: "nat option"
  tx_maxPriorityFeePerGas :: "nat option"
  tx_blockHash :: hash
  tx_blockNumber :: block_number
  tx_transactionIndex :: nat
  tx_chainId :: nat

text \<open>
  The light block of \<open>rpcBlockToLightBlock\<close> is the common prefix of the block
  records: a block row extends it with the header fields, a block with
  transactions extends that with the transaction list.
\<close>

record light_block =
  hash :: hash
  parentHash :: hash
  number :: block_number
  timestamp :: timestamp

record block = light_block +
  logsBloom :: "2048 word"
  gasLimit :: nat
  gasUsed :: nat
  baseFeePerGas :: nat
  miner :: address
  extraData :: string
  block_size :: nat
  stateRoot :: hash
  transactionsRoot :: hash
  receiptsRoot :: hash
  totalDifficulty :: nat

record block_with_transactions = block +
  transactions :: "transaction list"

record log =
  logId :: string
  logSortKey :: nat
  address :: address
  data :: string
  topic0 :: "string option"
  topic1 :: "string option"
  topic2 :: "string option"
  topic3 :: "string option"
  blockHash :: hash
  blockNumber :: block_number
  blockTimestamp :: "timestamp option"
  logIndex :: nat
  transactionHash :: hash
  transactionIndex :: nat
  removed :: bool

record event_store =
  intervals :: interval_table
  logs_table :: "log list"
  blocks_table :: "block list"
  transactions_table :: "transaction list"
  contractCalls :: "string \<rightharpoonup> string"

definition rpcBlockToLightBlock :: "'a light_block_scheme \<Rightarrow> light_block" where
  "rpcBlockToLightBlock b =
     \<lparr>hash = hash b, parentHash = parentHash b, number = number b, timestamp = timestamp b\<rparr>"

section \<open>Writes of the SQLite cache store\<close>

text \<open>
  \<open>insertLogs\<close>: one \<open>INSERT ... ON CONFLICT("logId") DO NOTHING\<close> per log, in
  one transaction. The statement names no \<open>blockTimestamp\<close> column, so an
  inserted row has it \<open>NULL\<close> whatever the log carried.
\<close>

definition insert_log_row :: "log list \<Rightarrow> log \<Rightarrow> log list" where
  "insert_log_row tbl l =
     (if \<exists>r \<in> set tbl. logId r = logId l then tbl else tbl @ [l\<lparr>blockTimestamp := None\<rparr>])"

definition insertLogs :: "event_store \<Rightarrow> log list \<Rightarrow> event_store" where
  "insertLogs st ls = st\<lparr>logs_table := foldl insert_log_row (logs_table st) ls\<rparr>"

text \<open>
  \<open>insertBlock\<close>: insert the block row unless its hash is stored, then set
  \<open>blockTimestamp\<close> on every stored log of that block hash (two statements,
  the second runs in either case).
\<close>

definition insert_block_row :: "event_store \<Rightarrow> block \<Rightarrow> event_store" where
  "insert_block_row st b =
     (if \<exists>r \<in> set (blocks_table st). hash r = hash b then st
      else st\<lparr>blocks_table := blocks_table st @ [b]\<rparr>)"

definition backfill_block_timestamp :: "event_store \<Rightarrow> hash \<Rightarrow> timestamp \<Rightarrow> event_store" where
  "backfill_block_timestamp st h ts =
     st\<lparr>logs_table := map (\<lambda>l. if blockHash l = h then l\<lparr>blockTimestamp := Some ts\<rparr> else l)
                          (logs_table st)\<rparr>"

definition insertBlock :: "event_store \<Rightarrow> block \<Rightarrow> event_store" where
  "insertBlock st b = backfill_block_timestamp (insert_block_row st b) (hash b) (timestamp b)"

definition insert_transaction_row :: "transaction list \<Rightarrow> transaction \<Rightarrow> transaction list" where
  "insert_transaction_row tbl t =
     (if \<exists>r \<in> set tbl. tx_hash r = tx_hash t then tbl else tbl @ [t])"

definition insertTransactions :: "event_store \<Rightarrow> transaction list \<Rightarrow> event_store" where
  "insertTransactions st ts =
     st\<lparr>transactions_table := foldl insert_transaction_row (transactions_table st) ts\<rparr>"

definition upsertContractCall :: "event_store \<Rightarrow> string \<Rightarrow> string \<Rightarrow> event_store" where
  "upsertContractCall st k r = st\<lparr>contractCalls := (contractCalls st)(k \<mapsto> r)\<rparr>"

section \<open>Reads of the SQLite cache store\<close>

text \<open>
  \<open>getLogs\<close>: the logs of a contract whose block timestamp lies in
  \<open>(fromBlockTimestamp, toBlockTimestamp]\<close>; a \<open>NULL\<close> timestamp compares to
  nothing and is never selected. With \<open>eventSigHashes\<close> the rows must also have
  a \<open>topic0\<close> in that list (\<open>topic0 IN (...)\<close>: a \<open>NULL\<close> topic and an
  empty list select nothing).
\<close>

definition getLogs ::
  "event_store \<Rightarrow> address \<Rightarrow> timestamp \<Rightarrow> timestamp \<Rightarrow> string list option \<Rightarrow> log list" where
  "getLogs st c from_ts to_ts sigs =
     filter (\<lambda>l. address l = c
                \<and> (case blockTimestamp l of None \<Rightarrow> False | Some t \<Rightarrow> from_ts < t \<and> t \<le> to_ts)
                \<and> (case sigs of None \<Rightarrow> True
                   | Some ss \<Rightarrow> (case topic0 l of None \<Rightarrow> False | Some t0 \<Rightarrow> t0 \<in> set ss)))
            (logs_table st)"

definition getBlock :: "event_store \<Rightarrow> hash \<Rightarrow> block option" where
  "getBlock st h = find (\<lambda>b. hash b = h) (blocks_table st)"

definition getTransaction :: "event_store \<Rightarrow> hash \<Rightarrow> transaction option" where
  "getTransaction st h = find (\<lambda>t. tx_hash t = h) (transactions_table st)"

definition getContractCall :: "event_store \<Rightarrow> string \<Rightarrow> string option" where
  "getContractCall st k = contractCalls st k"

section \<open>Writes of the event store used by the realtime service\<close>

text \<open>
  \<open>insertRealtimeBlock\<close>: the block row, the referenced transactions and the
  matched logs, each ignoring conflicts, and the block timestamp set on the
  logs of the block.
\<close>

definition insertRealtimeBlock ::
  "event_store \<Rightarrow> block_with_transactions \<Rightarrow> transaction list \<Rightarrow> log list \<Rightarrow> event_store" where
  "insertRealtimeBlock st b ts ls =
     backfill_block_timestamp
       (insertLogs (insertTransactions (insert_block_row st (block.truncate b)) ts) ls)
       (hash b) (timestamp b)"

text \<open>
  \<open>deleteRealtimeData\<close>: drop the logs, transactions and blocks at or above a
  block number; the cached intervals are not touched.
\<close>

definition deleteRealtimeData :: "event_store \<Rightarrow> block_number \<Rightarrow> event_store" where
  "deleteRealtimeData st n =
     st\<lparr>logs_table := filter (\<lambda>l. blockNumber l < n) (logs_table st),
        transactions_table := filter (\<lambda>t. tx_blockNumber t < n) (transactions_table st),
        blocks_table := filter (\<lambda>b. number b < n) (blocks_table st)\<rparr>"

section \<open>Consistency of the stored rows\<close>

definition log_consistent :: "block list \<Rightarrow> log \<Rightarrow> bool" where
  "log_consistent bs l =
     (\<exists>b \<in> set bs. hash b = blockHash l \<and> number b = blockNumber l
                   \<and> blockTimestamp l = Some (timestamp b))"

definition store_consistent :: "event_store \<Rightarrow> bool" where
  "store_consistent st =
     ((\<forall>l \<in> set (logs_table st). log_consistent (blocks_table st) l)
      \<and> distinct (map hash (blocks_table st)))"


section \<open>Concrete rows for the witnesses\<close>

definition empty_store :: event_store where
  "empty_store = \<lparr>intervals = [], logs_table = [], blocks_table = [], transactions_table = [],
                  contractCalls = Map.empty\<rparr>"

definition sample_block ::
  "hash \<Rightarrow> hash \<Rightarrow> block_number \<Rightarrow> timestamp \<Rightarrow> 2048 word \<Rightarrow> transaction list
   \<Rightarrow> block_with_transactions" where
  "sample_block h p n ts bloom txs =
     \<lparr>hash = h, parentHash = p, number = n, timestamp = ts, logsBloom = bloom, gasLimit = 0,
      gasUsed = 0, baseFeePerGas = 0, miner = '''', extraData = '''', block_size = 0,
      stateRoot = '''', transactionsRoot = '''', receiptsRoot = '''', totalDifficulty = 0,
      transactions = txs\<rparr>"

definition sample_log ::
  "string \<Rightarrow> address \<Rightarrow> string option \<Rightarrow> hash \<Rightarrow> block_number \<Rightarrow> hash \<Rightarrow> log" where
  "sample_log i a t0 bh n txh =
     \<lparr>logId = i, logSortKey = 0, address = a, data = '''', topic0 = t0, topic1 = None,
      topic2 = None, topic3 = None, blockHash = bh, blockNumber = n, blockTimestamp = None,
      logIndex = 0, transactionHash = txh, transactionIndex = 0, removed = False\<rparr>"

definition sample_transaction :: "hash \<Rightarrow> hash \<Rightarrow> block_number \<Rightarrow> transaction" where
  "sample_transaction h bh n =
     \<lparr>tx_hash = h, tx_nonce = 0, tx_from = '''', tx_to = None, tx_value = 0, tx_input = '''',
      tx_gas = 0, tx_gasPrice = 0, tx_maxFeePerGas = None, tx_maxPriorityFeePerGas = None,
      tx_blockHash = bh, tx_blockNumber = n, tx_transactionIndex = 0, tx_chainId = 1\<rparr>"

section \<open>Lemmas on the tables\<close>

lemma foldl_insert_log_row_set:
  "set (foldl insert_log_row tbl ls) \<subseteq> set tbl \<union> (\<lambda>l. l\<lparr>blockTimestamp := None\<rparr>) ` set ls"
proof (induction ls arbitrary: tbl)
  case (Cons l ls)
  have "set (insert_log_row tbl l) \<subseteq> set tbl \<union> {l\<lparr>blockTimestamp := None\<rparr>}"
    by (auto simp: insert_log_row_def)
  with Cons.IH[of "insert_log_row tbl l"] show ?case by auto
qed simp

lemma foldl_insert_log_row_keeps:
  "set tbl \<subseteq> set (foldl insert_log_row tbl ls)"
proof (induction ls arbitrary: tbl)
  case (Cons l ls)
  have "set tbl \<subseteq> set (insert_log_row tbl l)" by (auto simp: insert_log_row_def)
  with Cons.IH[of "insert_log_row tbl l"] show ?case by auto
qed simp

lemma foldl_insert_log_row_ids:
  "l \<in> set ls \<Longrightarrow> \<exists>r \<in> set (foldl insert_log_row tbl ls). logId r = logId l"
proof (induction ls arbitrary: tbl)
  case (Cons x ls)
  show ?case
  proof (cases "l = x")
    case True
    have "\<exists>r \<in> set (insert_log_row tbl x). logId r = logId x"
      by (auto simp: insert_log_row_def)
    then show ?thesis using True foldl_insert_log_row_keeps by fastforce
  next
    case False
    with Cons show ?thesis by simp
  qed
qed simp

lemma foldl_insert_log_row_present:
  "\<forall>l \<in> set ls. \<exists>r \<in> set tbl. logId r = logId l \<Longrightarrow> foldl insert_log_row tbl ls = tbl"
  by (induction ls) (auto simp: insert_log_row_def)

lemma insert_block_row_has:
  "\<exists>r \<in> set (blocks_table (insert_block_row st b)). hash r = hash b
      \<and> (r = b \<or> r \<in> set (blocks_table st))"
  by (auto simp: insert_block_row_def)

lemma insertRealtimeBlock_consistent:
  assumes cons: "store_consistent st"
    and ls: "\<forall>l \<in> set ls. blockHash l = hash b \<and> blockNumber l = number b"
    and same: "\<forall>r \<in> set (blocks_table st). hash r = hash b \<longrightarrow> number r = number b \<and> timestamp r = timestamp b"
  shows "store_consistent (insertRealtimeBlock st b ts ls)"
proof -
  let ?st1 = "insert_block_row st (block.truncate b)"
  let ?bs = "blocks_table ?st1"
  have bs: "blocks_table (insertRealtimeBlock st b ts ls) = ?bs"
    by (simp add: insertRealtimeBlock_def backfill_block_timestamp_def insertLogs_def insertTransactions_def)
  obtain r where r: "r \<in> set ?bs" "hash r = hash b" "number r = number b" "timestamp r = timestamp b"
    using insert_block_row_has[of st "block.truncate b"] same
    by (force simp: block.truncate_def)
  have old: "set (blocks_table st) \<subseteq> set ?bs" by (auto simp: insert_block_row_def)
  have dist: "distinct (map hash ?bs)"
    using cons by (auto simp: store_consistent_def insert_block_row_def block.truncate_def)
  have logs1: "set (logs_table (insertLogs (insertTransactions ?st1 ts) ls))
       \<subseteq> set (logs_table st) \<union> (\<lambda>l. l\<lparr>blockTimestamp := None\<rparr>) ` set ls"
    using foldl_insert_log_row_set
    by (simp add: insertLogs_def insertTransactions_def insert_block_row_def)
  have "\<forall>l \<in> set (logs_table (insertRealtimeBlock st b ts ls)). log_consistent ?bs l"
  proof
    fix l assume "l \<in> set (logs_table (insertRealtimeBlock st b ts ls))"
    then obtain l0 where l0: "l0 \<in> set (logs_table (insertLogs (insertTransactions ?st1 ts) ls))"
      and l: "l = (if blockHash l0 = hash b then l0\<lparr>blockTimestamp := Some (timestamp b)\<rparr> else l0)"
      by (auto simp: insertRealtimeBlock_def backfill_block_timestamp_def)
    show "log_consistent ?bs l"
    proof (cases "blockHash l0 = hash b")
      case True
      have "blockNumber l0 = number b"
      proof -
        from l0 logs1 consider "l0 \<in> set (logs_table st)" | "l0 \<in> (\<lambda>l. l\<lparr>blockTimestamp := None\<rparr>) ` set ls"
          by blast
        then show ?thesis
        proof cases
          case 1
          with cons obtain r' where "r' \<in> set (blocks_table st)" "hash r' = blockHash l0" "number r' = blockNumber l0"
            by (auto simp: store_consistent_def log_consistent_def)
          with True same show ?thesis by force
        next
          case 2
          with ls show ?thesis by auto
        qed
      qed
      with True l r show ?thesis by (auto simp: log_consistent_def)
    next
      case False
      with l0 logs1 ls have "l0 \<in> set (logs_table st)" by auto
      with cons False l old show ?thesis
        by (fastforce simp: store_consistent_def log_consistent_def)
    qed
  qed
  with dist bs show ?thesis by (simp add: store_consistent_def)
qed

lemma deleteRealtimeData_consistent:
  "store_consistent st \<Longrightarrow> store_consistent (deleteRealtimeData st n)"
  by (fastforce simp: store_consistent_def deleteRealtimeData_def log_consistent_def distinct_map_filter)

lemma getBlock_insertBlock:
  "getBlock (insertBlock st b) (hash b) =
     (case getBlock st (hash b) of None \<Rightarrow> Some b | Some b0 \<Rightarrow> Some b0)"
proof (cases "\<exists>r \<in> set (blocks_table st). hash r = hash b")
  case True
  then obtain r where "r \<in> set (blocks_table st)" "hash r = hash b" by blast
  then obtain b0 where "find (\<lambda>r. hash r = hash b) (blocks_table st) = Some b0"
    using find_Some_exists[of r "blocks_table st" "\<lambda>r. hash r = hash b"] by blast
  with True show ?thesis
    by (simp add: getBlock_def insertBlock_def insert_block_row_def backfill_block_timestamp_def find_append_list)
next
  case False
  then have "find (\<lambda>r. hash r = hash b) (blocks_table st) = None"
    by (simp add: find_None_iff)
  with False show ?thesis
    by (simp add: getBlock_def insertBlock_def insert_block_row_def backfill_block_timestamp_def find_append_list)
qed

lemma find_insert_transaction_row:
  "find (\<lambda>t. tx_hash t = h) (insert_transaction_row tbl t) =
     (case find (\<lambda>t. tx_hash t = h) tbl of None \<Rightarrow> find (\<lambda>t. tx_hash t = h) [t] | Some t0 \<Rightarrow> Some t0)"
proof (cases "find (\<lambda>t. tx_hash t = h) tbl")
  case None
  then have "\<forall>x \<in> set tbl. tx_hash x \<noteq> h" by (simp add: find_None_iff)
  with None show ?thesis
    by (auto simp: insert_transaction_row_def find_append_list)
next
  case (Some t0)
  then show ?thesis
    by (simp add: insert_transaction_row_def find_append_list)
qed

lemma find_insert_transaction_rows:
  "find (\<lambda>t. tx_hash t = h) (foldl insert_transaction_row tbl ts) =
     (case find (\<lambda>t. tx_hash t = h) tbl of None \<Rightarrow> find (\<lambda>t. tx_hash t = h) ts | Some t0 \<Rightarrow> Some t0)"
proof (induction ts arbitrary: tbl)
  case (Cons t ts)
  show ?case
    using Cons.IH[of "insert_transaction_row tbl t"] find_insert_transaction_row[of h tbl t]
    by (simp split: option.splits)
qed (simp split: option.split)

lemma getTransaction_insertTransactions:
  "getTransaction (insertTransactions st ts) h =
     (case getTransaction st h of None \<Rightarrow> find (\<lambda>t. tx_hash t = h) ts | Some t0 \<Rightarrow> Some t0)"
  by (simp add: getTransaction_def insertTransactions_def find_insert_transaction_rows)

lemma getLogs_logs_then_block:
  assumes "\<forall>r \<in> set (logs_table st). logId r \<noteq> logId l" "blockHash l = hash b"
    and "from_ts < timestamp b" "timestamp b \<le> to_ts"
  shows "l\<lparr>blockTimestamp := Some (timestamp b)\<rparr>
           \<in> set (getLogs (insertBlock (insertLogs st [l]) b) (address l) from_ts to_ts None)"
  using assms
  by (auto simp: getLogs_def insertBlock_def insertLogs_def insert_log_row_def
                 insert_block_row_def backfill_block_timestamp_def)

lemma getLogs_block_then_logs:
  assumes "\<forall>r \<in> set (logs_table st). logId r \<noteq> logId l"
  shows "l\<lparr>blockTimestamp := None\<rparr> \<in> set (logs_table (insertLogs (insertBlock st b) [l]))
         \<and> (\<forall>r \<in> set (getLogs (insertLogs (insertBlock st b) [l]) c from_ts to_ts sigs). logId r \<noteq> logId l)"
  using assms
  by (auto simp: getLogs_def insertBlock_def insertLogs_def insert_log_row_def
                 insert_block_row_def backfill_block_timestamp_def)

lemma logIds_backfill [simp]:
  "logId ` set (logs_table (backfill_block_timestamp st h ts)) = logId ` set (logs_table st)"
proof -
  have "map logId (logs_table (backfill_block_timestamp st h ts)) = map logId (logs_table st)"
    by (simp add: backfill_block_timestamp_def comp_def)
  then show ?thesis by (metis set_map)
qed

lemma insertRealtimeBlock_logIds:
  "l \<in> set ls \<Longrightarrow> \<exists>r \<in> set (logs_table (insertRealtimeBlock st b ts ls)). logId r = logId l"
proof -
  assume "l \<in> set ls"
  then obtain r where r: "r \<in> set (foldl insert_log_row
        (logs_table (insertTransactions (insert_block_row st (block.truncate b)) ts)) ls)" "logId r = logId l"
    using foldl_insert_log_row_ids by blast
  then have "logId l \<in> logId ` set (logs_table (insertRealtimeBlock st b ts ls))"
    by (simp add: insertRealtimeBlock_def insertLogs_def) (metis image_eqI)
  then show ?thesis by (metis imageE)
qed





section \<open>Properties of the cache store\<close>

text \<open>
  C14. The realtime writes keep the store consistent: when every stored log
  belongs to a stored block of the same hash and number and carries its
  timestamp, this still holds after \<open>insertRealtimeBlock\<close> with logs of the
  block (and a block hash that, if stored, denotes the same number and
  timestamp), and after a later \<open>deleteRealtimeData\<close> at any block number.
\<close>

theorem store_consistent_realtime_writes:
  assumes "store_consistent st"
    and "\<forall>l \<in> set ls. blockHash l = hash b \<and> blockNumber l = number b"
    and "\<forall>r \<in> set (blocks_table st). hash r = hash b \<longrightarrow> number r = number b \<and> timestamp r = timestamp b"
  shows "store_consistent (insertRealtimeBlock st b ts ls)
         \<and> store_consistent (deleteRealtimeData (insertRealtimeBlock st b ts ls) n)"
  using insertRealtimeBlock_consistent[OF assms] deleteRealtimeData_consistent by blast

theorem store_consistent_realtime_writes_witness:
  "store_consistent empty_store \<and>
   blockHash (sample_log ''l1'' ''A'' None ''H1'' 1 ''T1'') = hash (sample_block ''H1'' ''H0'' 1 10 0 []) \<and>
   blockNumber (sample_log ''l1'' ''A'' None ''H1'' 1 ''T1'') = number (sample_block ''H1'' ''H0'' 1 10 0 []) \<and>
   blocks_table empty_store = [] \<and>
   store_consistent (insertRealtimeBlock empty_store (sample_block ''H1'' ''H0'' 1 10 0 [])
                       [] [sample_log ''l1'' ''A'' None ''H1'' 1 ''T1'']) \<and>
   store_consistent (deleteRealtimeData (insertRealtimeBlock empty_store (sample_block ''H1'' ''H0'' 1 10 0 [])
                       [] [sample_log ''l1'' ''A'' None ''H1'' 1 ''T1'']) 1)"
proof -
  have h: "store_consistent empty_store"
    "\<forall>l \<in> set [sample_log ''l1'' ''A'' None ''H1'' 1 ''T1''].
      blockHash l = hash (sample_block ''H1'' ''H0'' 1 10 0 []) \<and>
      blockNumber l = number (sample_block ''H1'' ''H0'' 1 10 0 [])"
    "\<forall>r \<in> set (blocks_table empty_store). hash r = hash (sample_block ''H1'' ''H0'' 1 10 0 []) \<longrightarrow>
      number r = number (sample_block ''H1'' ''H0'' 1 10 0 []) \<and>
      timestamp r = timestamp (sample_block ''H1'' ''H0'' 1 10 0 [])"
    by (simp_all add: store_consistent_def empty_store_def sample_log_def sample_block_def)
  show ?thesis using store_consistent_realtime_writes[OF h, of "[]" 1] h
    by (simp add: empty_store_def sample_log_def sample_block_def)
qed

text \<open>
  C21. \<open>insertLogs\<close> is idempotent: inserting the same logs again is a no-op,
  because every log id of the batch is stored after the first insert.
\<close>

theorem insertLogs_idempotent:
  "insertLogs (insertLogs st ls) ls = insertLogs st ls"
  using foldl_insert_log_row_present foldl_insert_log_row_ids
  by (simp add: insertLogs_def)




text \<open>
  C23. The order of the writes decides whether a log can be read: a log
  inserted before its block gets the block timestamp from \<open>insertBlock\<close> and
  is returned by \<open>getLogs\<close> for a window containing that timestamp; a log
  inserted after its block keeps a \<open>NULL\<close> timestamp and \<open>getLogs\<close> never
  returns it.
\<close>

theorem getLogs_timestamp_backfill_order:
  assumes "\<forall>r \<in> set (logs_table st). logId r \<noteq> logId l" "blockHash l = hash b"
    and "from_ts < timestamp b" "timestamp b \<le> to_ts"
  shows "l\<lparr>blockTimestamp := Some (timestamp b)\<rparr>
           \<in> set (getLogs (insertBlock (insertLogs st [l]) b) (address l) from_ts to_ts None)
         \<and> (\<forall>r \<in> set (getLogs (insertLogs (insertBlock st b) [l]) (address l) from_ts to_ts None).
              logId r \<noteq> logId l)"
  using getLogs_logs_then_block[OF assms] getLogs_block_then_logs[OF assms(1)] by blast

theorem getLogs_timestamp_backfill_order_witness:
  "logs_table empty_store = [] \<and>
   blockHash (sample_log ''l1'' ''A'' None ''H1'' 1 ''T1'') = hash (block.truncate (sample_block ''H1'' ''H0'' 1 10 0 [])) \<and>
   (5::nat) < timestamp (block.truncate (sample_block ''H1'' ''H0'' 1 10 0 [])) \<and>
   timestamp (block.truncate (sample_block ''H1'' ''H0'' 1 10 0 [])) \<le> 20 \<and>
   (sample_log ''l1'' ''A'' None ''H1'' 1 ''T1'')\<lparr>blockTimestamp := Some 10\<rparr>
     \<in> set (getLogs (insertBlock (insertLogs empty_store [sample_log ''l1'' ''A'' None ''H1'' 1 ''T1''])
                      (block.truncate (sample_block ''H1'' ''H0'' 1 10 0 []))) ''A'' 5 20 None)"
proof -
  have h: "\<forall>r \<in> set (logs_table empty_store). logId r \<noteq> logId (sample_log ''l1'' ''A'' None ''H1'' 1 ''T1'')"
    "blockHash (sample_log ''l1'' ''A'' None ''H1'' 1 ''T1'') = hash (block.truncate (sample_block ''H1'' ''H0'' 1 10 0 []))"
    "(5::nat) < timestamp (block.truncate (sample_block ''H1'' ''H0'' 1 10 0 []))"
    "timestamp (block.truncate (sample_block ''H1'' ''H0'' 1 10 0 [])) \<le> 20"
    by (simp_all add: empty_store_def sample_log_def sample_block_def block.truncate_def)
  show ?thesis
    using getLogs_timestamp_backfill_order[OF h] h
    by (simp add: empty_store_def sample_log_def sample_block_def block.truncate_def)
qed

end
