(* ===== verification/Filters.thy ===== *)
theory Filters
  imports CacheStore
begin

unbundle bit_operations_syntax

text \<open>
  The log filters of the configuration and the two pure helpers the realtime
  worker calls on a new head block: the logs-bloom pre-screen
  \<open>isMatchedLogInBloomFilter\<close> (\<open>realtime-sync/bloom\<close>) and \<open>filterLogs\<close>
  (\<open>realtime-sync/filter\<close>). Neither file is among the sources; both are
  modelled from the spec, sections 4.2 and 4.3. Bloom membership of an
  address or topic is \<open>bloom AND m = m\<close> for the item's bit mask \<open>m\<close>; the
  mask (three bits chosen by keccak-256) is a parameter, since the hash is not
  modelled. The lemmas show that the recursive topic matcher agrees with the
  positional definition of the spec, and that the pre-screen has no false
  negatives on the bloom a block header carries for its logs.
\<close>

record log_filter =
  filter_key :: string
  filter_address :: address
  filter_topics :: "string list option list"
  filter_endBlock :: "block_number option"

type_synonym bloom_mask = "string \<Rightarrow> 2048 word"

section \<open>Log filter\<close>

definition log_topics :: "log \<Rightarrow> string option list" where
  "log_topics l = [topic0 l, topic1 l, topic2 l, topic3 l]"

text \<open>
  Topic position \<open>i\<close> of a filter is \<open>None\<close> (any topic) or the list of
  allowed values; a constrained position needs a topic of the log there.
\<close>

fun topics_match :: "string list option list \<Rightarrow> string option list \<Rightarrow> bool" where
  "topics_match [] lts = True"
| "topics_match (None # fts) lts = topics_match fts (drop 1 lts)"
| "topics_match (Some allowed # fts) lts =
     (case lts of
        [] \<Rightarrow> False
      | None # _ \<Rightarrow> False
      | Some t # rest \<Rightarrow> t \<in> set allowed \<and> topics_match fts rest)"

definition log_matches :: "log_filter \<Rightarrow> log \<Rightarrow> bool" where
  "log_matches f l = (address l = filter_address f \<and> topics_match (filter_topics f) (log_topics l))"

definition filterLogs :: "log list \<Rightarrow> log_filter list \<Rightarrow> log list" where
  "filterLogs ls fs = filter (\<lambda>l. list_ex (\<lambda>f. log_matches f l) fs) ls"

section \<open>Bloom pre-screen\<close>

definition bloom_contains :: "bloom_mask \<Rightarrow> 2048 word \<Rightarrow> string \<Rightarrow> bool" where
  "bloom_contains bm bloom x = (bloom AND bm x = bm x)"

definition isMatchedLogInBloomFilter :: "bloom_mask \<Rightarrow> 2048 word \<Rightarrow> log_filter list \<Rightarrow> bool" where
  "isMatchedLogInBloomFilter bm bloom fs =
     list_ex (\<lambda>f. bloom_contains bm bloom (filter_address f)
                  \<and> list_all (\<lambda>t. case t of None \<Rightarrow> True
                                          | Some allowed \<Rightarrow> list_ex (bloom_contains bm bloom) allowed)
                             (filter_topics f)) fs"

text \<open>The bloom a block header carries: the masks of every log's address and topics.\<close>

definition log_bloom :: "bloom_mask \<Rightarrow> log \<Rightarrow> 2048 word" where
  "log_bloom bm l =
     foldr (\<lambda>t acc. case t of None \<Rightarrow> acc | Some x \<Rightarrow> acc OR bm x) (log_topics l) (bm (address l))"

definition logs_bloom :: "bloom_mask \<Rightarrow> log list \<Rightarrow> 2048 word" where
  "logs_bloom bm ls = foldr (\<lambda>l acc. acc OR log_bloom bm l) ls 0"

definition bloom_covers :: "bloom_mask \<Rightarrow> 2048 word \<Rightarrow> log list \<Rightarrow> bool" where
  "bloom_covers bm bloom ls =
     (\<forall>l \<in> set ls. bloom_contains bm bloom (address l)
        \<and> (\<forall>x. Some x \<in> set (log_topics l) \<longrightarrow> bloom_contains bm bloom x))"

section \<open>Lemmas\<close>

lemma bloom_contains_bits:
  "bloom_contains bm w x \<longleftrightarrow> (\<forall>n. bit (bm x) n \<longrightarrow> bit w n)"
  unfolding bloom_contains_def
proof
  assume "w AND bm x = bm x"
  then show "\<forall>n. bit (bm x) n \<longrightarrow> bit w n" by (metis bit_and_iff)
next
  assume "\<forall>n. bit (bm x) n \<longrightarrow> bit w n"
  then show "w AND bm x = bm x" by (intro bit_eqI) (auto simp: bit_and_iff)
qed

lemma foldr_topics_bit:
  "bit (foldr (\<lambda>t acc. case t of None \<Rightarrow> acc | Some x \<Rightarrow> acc OR bm x) ts w) n \<longleftrightarrow>
     bit w n \<or> (\<exists>x. Some x \<in> set ts \<and> bit (bm x) n)"
  by (induction ts) (auto simp: bit_or_iff split: option.splits)

lemma logs_bloom_bit:
  "bit (logs_bloom bm ls) n \<longleftrightarrow> (\<exists>l \<in> set ls. bit (log_bloom bm l) n)"
  by (induction ls) (auto simp: logs_bloom_def bit_or_iff)

lemma logs_bloom_covers: "bloom_covers bm (logs_bloom bm ls) ls"
  by (auto simp: bloom_covers_def bloom_contains_bits logs_bloom_bit log_bloom_def foldr_topics_bit)

lemma topics_match_allowed:
  "topics_match fts lts \<Longrightarrow> Some allowed \<in> set fts \<Longrightarrow> \<exists>t \<in> set allowed. Some t \<in> set lts"
proof (induction fts lts rule: topics_match.induct)
  case (2 fts lts)
  then show ?case by (cases lts) auto
next
  case (3 a fts lts)
  then show ?case by (auto split: list.splits option.splits)
qed simp

lemma bloom_no_false_negatives:
  assumes "bloom_covers bm bloom ls" and "filterLogs ls fs \<noteq> []"
  shows "isMatchedLogInBloomFilter bm bloom fs"
proof -
  from assms(2) obtain l f where l: "l \<in> set ls" and f: "f \<in> set fs" and m: "log_matches f l"
    by (auto simp: filterLogs_def filter_empty_conv list_ex_iff)
  have cov: "bloom_contains bm bloom (address l)"
    "\<And>x. Some x \<in> set (log_topics l) \<Longrightarrow> bloom_contains bm bloom x"
    using assms(1) l by (auto simp: bloom_covers_def)
  have "list_all (\<lambda>t. case t of None \<Rightarrow> True
                     | Some allowed \<Rightarrow> list_ex (bloom_contains bm bloom) allowed) (filter_topics f)"
  proof (unfold list_all_iff, intro ballI)
    fix t assume t: "t \<in> set (filter_topics f)"
    show "case t of None \<Rightarrow> True | Some allowed \<Rightarrow> list_ex (bloom_contains bm bloom) allowed"
    proof (cases t)
      case (Some allowed)
      with t m obtain x where "x \<in> set allowed" "Some x \<in> set (log_topics l)"
        using topics_match_allowed by (fastforce simp: log_matches_def)
      with Some cov(2) show ?thesis by (auto simp: list_ex_iff)
    qed simp
  qed
  with f m cov(1) show ?thesis
    by (auto simp: isMatchedLogInBloomFilter_def log_matches_def list_ex_iff)
qed

text \<open>
  The bloom pre-screen has no false negatives: whenever \<open>filterLogs\<close> keeps a
  log of a block for the configured filters, the screen of the block's logs
  bloom (the masks of all its logs' addresses and topics) passes.
\<close>

lemma bloom_prescreen_sound:
  assumes "filterLogs ls fs \<noteq> []"
  shows "isMatchedLogInBloomFilter bm (logs_bloom bm ls) fs"
  using bloom_no_false_negatives[OF logs_bloom_covers assms] .

text \<open>
  The recursive topic matcher is the positional rule of the spec: for each
  topic position \<open>i\<close> of the filter, either it is unconstrained or the log has
  a topic at position \<open>i\<close> and that topic is one of the allowed values.
\<close>

lemma topics_match_positional:
  "topics_match fts lts \<longleftrightarrow>
     (\<forall>i < length fts. case fts ! i of None \<Rightarrow> True
        | Some allowed \<Rightarrow> i < length lts \<and> (\<exists>t. lts ! i = Some t \<and> t \<in> set allowed))"
proof (induction fts lts rule: topics_match.induct)
  case (1 lts)
  then show ?case by simp
next
  case (2 fts lts)
  then show ?case
    by (cases lts) (auto simp: All_less_Suc2 split: option.splits)
next
  case (3 allowed fts lts)
  then show ?case
    by (cases lts) (simp_all add: All_less_Suc2 split: option.splits)
qed


end
