(* ===== verification/Queue.thy ===== *)
theory Queue
  imports Prelude
begin

text \<open>
  The task queue of \<open>utils/queue\<close> (\<open>createQueue\<close>; not among the sources,
  modelled from the spec, sections 4.5 and 9): pending tasks with their
  priorities in insertion order, and whether the single worker is started.
  \<open>pop\<close> takes the first task of the highest priority, so equal priorities are
  served first in, first out. The lemmas show exactly that, and that a pop
  removes one task and keeps the others in order.
\<close>

record 'a task_queue =
  q_tasks :: "(int \<times> 'a) list"
  q_started :: bool

definition addTask :: "'a task_queue \<Rightarrow> 'a \<Rightarrow> int \<Rightarrow> 'a task_queue" where
  "addTask q t p = q\<lparr>q_tasks := q_tasks q @ [(p, t)]\<rparr>"

definition queue_clear :: "'a task_queue \<Rightarrow> 'a task_queue" where
  "queue_clear q = q\<lparr>q_tasks := []\<rparr>"

definition queue_start :: "'a task_queue \<Rightarrow> 'a task_queue" where
  "queue_start q = q\<lparr>q_started := True\<rparr>"

definition queue_pause :: "'a task_queue \<Rightarrow> 'a task_queue" where
  "queue_pause q = q\<lparr>q_started := False\<rparr>"

definition queue_size :: "'a task_queue \<Rightarrow> nat" where
  "queue_size q = length (q_tasks q)"

definition max_priority :: "(int \<times> 'a) list \<Rightarrow> int" where
  "max_priority ts = fold max (map fst (tl ts)) (fst (hd ts))"

definition pop :: "'a task_queue \<Rightarrow> ('a \<times> 'a task_queue) option" where
  "pop q =
     (if q_tasks q = [] then None
      else (let p = max_priority (q_tasks q);
                pre = takeWhile (\<lambda>x. fst x \<noteq> p) (q_tasks q);
                rest = dropWhile (\<lambda>x. fst x \<noteq> p) (q_tasks q)
            in Some (snd (hd rest), q\<lparr>q_tasks := pre @ tl rest\<rparr>)))"

section \<open>Lemmas\<close>

lemma max_priority_props:
  "ts \<noteq> [] \<Longrightarrow> max_priority ts \<in> fst ` set ts \<and> (\<forall>x \<in> set ts. fst x \<le> max_priority ts)"
proof -
  assume "ts \<noteq> []"
  then obtain t rest where ts: "ts = t # rest" by (cases ts) auto
  have m: "max_priority ts = Max (set (map fst ts))"
    using ts by (simp add: max_priority_def Max.set_eq_fold[symmetric])
  have "Max (set (map fst ts)) \<in> set (map fst ts)" using ts by (intro Max_in) auto
  moreover have "\<forall>x \<in> set ts. fst x \<le> Max (set (map fst ts))" by auto
  ultimately show ?thesis using m by simp
qed

lemma pop_Some:
  assumes "pop q = Some (t, q')"
  shows "\<exists>pre post p. q_tasks q = pre @ (p, t) # post \<and> q_tasks q' = pre @ post
           \<and> (\<forall>x \<in> set pre. fst x < p) \<and> (\<forall>x \<in> set (pre @ post). fst x \<le> p)
           \<and> q_started q' = q_started q"
proof -
  let ?ts = "q_tasks q"
  let ?p = "max_priority ?ts"
  have ne: "?ts \<noteq> []" using assms by (auto simp: pop_def split: if_splits)
  from max_priority_props[OF ne] obtain t0 where t0: "(?p, t0) \<in> set ?ts"
    by force
  let ?pre = "takeWhile (\<lambda>x. fst x \<noteq> ?p) ?ts"
  let ?rest = "dropWhile (\<lambda>x. fst x \<noteq> ?p) ?ts"
  have "?rest \<noteq> []" using t0 by (force simp: dropWhile_eq_Nil_conv)
  moreover have "fst (hd ?rest) = ?p"
    using t0 hd_dropWhile[of "\<lambda>x. fst x \<noteq> ?p" ?ts] by (force simp: dropWhile_eq_Nil_conv)
  ultimately obtain post where rest: "?rest = (?p, snd (hd ?rest)) # post"
    by (cases ?rest) auto
  have split: "?ts = ?pre @ ?rest" by simp
  have res: "t = snd (hd ?rest)" "q_tasks q' = ?pre @ tl ?rest" "q_started q' = q_started q"
    using assms ne by (auto simp: pop_def Let_def)
  have pre_lt: "\<forall>x \<in> set ?pre. fst x < ?p"
  proof
    fix x assume x: "x \<in> set ?pre"
    then have "fst x \<noteq> ?p" by (blast dest: set_takeWhileD)
    moreover have "fst x \<le> ?p" using x max_priority_props[OF ne] by (blast dest: set_takeWhileD)
    ultimately show "fst x < ?p" by simp
  qed
  have le: "\<forall>x \<in> set (?pre @ post). fst x \<le> ?p"
    using max_priority_props[OF ne] split rest by (metis Un_iff list.set_intros(2) set_append)
  show ?thesis
    using split rest res pre_lt le by (metis list.sel(3))
qed

lemma pop_None: "pop q = None \<longleftrightarrow> q_tasks q = []"
  by (simp add: pop_def Let_def)

end
