(* ===== verification/Realtime.thy ===== *)
theory Realtime
  imports Filters Queue
begin

text \<open>
  The realtime sync service, \<open>RealtimeSyncService\<close> of
  \<open>src/packages/core/src/realtime-sync/service.ts\<close>. Its private fields are
  the record \<open>rt_state\<close> (with the event store it writes and the events it
  emits, in order); its configuration is \<open>rt_config\<close>; the JSON-RPC endpoint
  is an environment \<open>rpc\<close> giving the answer of each request (\<open>None\<close> for a
  null result or a failed request, both of which make the code throw). Each
  public method and each branch of \<open>blockTaskWorker\<close> is one definition; a
  throw is a returned error, with the state changes made before it kept, as in
  the code. The reorg walk may loop when the endpoint serves parents whose
  numbers do not decrease, so it is a \<open>partial_function (option)\<close> and the
  worker's result is \<open>None\<close> when it does not return. The service as a whole is
  the step relation \<open>rt_step\<close>: a poll, one task of the single worker, or
  \<open>kill\<close>.
\<close>

section \<open>State, configuration, environment\<close>

datatype rt_event =
    RealtimeCheckpoint timestamp
  | FinalityCheckpoint timestamp
  | ShallowReorg timestamp
  | DeepReorg block_number nat
  | ErrorEvent sync_error

record rt_config =
  logFilters :: "log_filter list"
  finalityBlockCount :: nat
  chainId :: nat
  bloomMask :: bloom_mask

record rpc =
  rpc_latest :: "block_with_transactions option"
  rpc_block_by_number :: "block_number \<Rightarrow> block_with_transactions option"
  rpc_block_by_hash :: "hash \<Rightarrow> block_with_transactions option"
  rpc_logs :: "hash \<Rightarrow> log list option"

record rt_state =
  finalizedBlockNumber :: block_number
  blocks :: "light_block list"
  queue :: "block_with_transactions task_queue"
  store :: event_store
  stats :: "block_number \<rightharpoonup> nat"
  polling :: bool
  events :: "rt_event list"

definition MAX_SAFE_INTEGER :: int where
  "MAX_SAFE_INTEGER = 2 ^ 53 - 1"

definition block_priority :: "'a light_block_scheme \<Rightarrow> int" where
  "block_priority b = MAX_SAFE_INTEGER - int (number b)"

definition add_block_task ::
  "block_with_transactions task_queue \<Rightarrow> block_with_transactions \<Rightarrow> block_with_transactions task_queue" where
  "add_block_task q b = addTask q b (block_priority b)"

definition new_service :: "event_store \<Rightarrow> rt_state" where
  "new_service st =
     \<lparr>finalizedBlockNumber = 0, blocks = [], queue = \<lparr>q_tasks = [], q_started = False\<rparr>,
      store = st, stats = Map.empty, polling = False, events = []\<rparr>"

section \<open>Public methods\<close>

definition getLatestBlock :: "rpc \<Rightarrow> sync_error + block_with_transactions" where
  "getLatestBlock env =
     (case rpc_latest env of None \<Rightarrow> Inl UnableToFetchLatestBlock | Some b \<Rightarrow> Inr b)"

text \<open>
  \<open>setup\<close>: the finalized number is \<open>max(0, latest - finalityBlockCount)\<close>,
  which is truncated subtraction on \<open>nat\<close>; the latest block is queued.
\<close>

definition setup_service ::
  "rpc \<Rightarrow> rt_config \<Rightarrow> rt_state \<Rightarrow> sync_error + ((block_number \<times> block_number) \<times> rt_state)" where
  "setup_service env cfg s =
     (case getLatestBlock env of
        Inl e \<Rightarrow> Inl e
      | Inr latest \<Rightarrow>
          (let fin = number latest - finalityBlockCount cfg
           in Inr ((number latest, fin),
                   s\<lparr>finalizedBlockNumber := fin, queue := add_block_task (queue s) latest\<rparr>)))"

text \<open>
  \<open>start\<close>: stop when every filter has an end block below the finalized number
  (vacuously so when there are no filters); fail when \<open>setup\<close> (\<open>setup_service\<close>) queued nothing;
  otherwise push the light form of the finalized block, start the queue and
  begin polling.
\<close>

definition start :: "rpc \<Rightarrow> rt_config \<Rightarrow> rt_state \<Rightarrow> sync_error + rt_state" where
  "start env cfg s =
     (if list_all (\<lambda>f. case filter_endBlock f of None \<Rightarrow> False
                                              | Some e \<Rightarrow> e < finalizedBlockNumber s) (logFilters cfg)
      then Inr s
      else if queue_size (queue s) = 0 then Inl MustCallSetup
      else (case rpc_block_by_number env (finalizedBlockNumber s) of
              None \<Rightarrow> Inl UnableToFetchFinalizedBlock
            | Some fb \<Rightarrow> Inr (s\<lparr>blocks := blocks s @ [rpcBlockToLightBlock fb],
                               queue := queue_start (queue s), polling := True\<rparr>)))"

definition kill :: "rt_state \<Rightarrow> rt_state" where
  "kill s = s\<lparr>polling := False, queue := queue_clear (queue_pause (queue s))\<rparr>"

definition addNewLatestBlock :: "rpc \<Rightarrow> rt_state \<Rightarrow> sync_error + rt_state" where
  "addNewLatestBlock env s =
     (case getLatestBlock env of
        Inl e \<Rightarrow> Inl e
      | Inr b \<Rightarrow> Inr (s\<lparr>queue := add_block_task (queue s) b\<rparr>))"

section \<open>The block task worker\<close>

text \<open>
  Finality advance (case 2, after the head is accepted): the local block at
  \<open>finalized + finalityBlockCount\<close> becomes the finalized block; the blocks
  and stats below it are dropped, the range from the old finalized block
  (exclusive) to it is written as cached for every filter key, and
  \<open>finalityCheckpoint\<close> is emitted. A missing block is the \<open>TypeError\<close> of
  reading a field of \<open>undefined\<close>.
\<close>

definition advance_finality :: "rt_config \<Rightarrow> rt_state \<Rightarrow> rt_state \<times> sync_error option" where
  "advance_finality cfg s =
     (let target = finalizedBlockNumber s + finalityBlockCount cfg
      in case find (\<lambda>b. number b = target) (blocks s) of
           None \<Rightarrow> (s, Some (FinalizedBlockUndefined target))
         | Some fb \<Rightarrow>
             (let s1 = s\<lparr>blocks := filter (\<lambda>b. number fb \<le> number b) (blocks s),
                         stats := (\<lambda>n. if n < number fb then None else stats s n)\<rparr>
              in case insertLogFilterCachedRanges (intervals (store s1))
                        (map filter_key (logFilters cfg)) (finalizedBlockNumber s + 1)
                        (number fb) (timestamp fb) of
                   Inl e \<Rightarrow> (s1, Some e)
                 | Inr tbl \<Rightarrow> (s1\<lparr>store := (store s1)\<lparr>intervals := tbl\<rparr>,
                                   finalizedBlockNumber := number fb,
                                   events := events s1 @ [FinalityCheckpoint (timestamp fb)]\<rparr>, None)))"

definition accept_head ::
  "rt_config \<Rightarrow> rt_state \<Rightarrow> block_with_transactions \<Rightarrow> nat \<Rightarrow> rt_state \<times> sync_error option" where
  "accept_head cfg s b cnt =
     (let s1 = s\<lparr>events := events s @ [RealtimeCheckpoint (timestamp b)],
                 blocks := blocks s @ [rpcBlockToLightBlock b],
                 stats := (stats s)(number b \<mapsto> cnt)\<rparr>
      in if finalizedBlockNumber s + 2 * finalityBlockCount cfg < number b
         then advance_finality cfg s1 else (s1, None))"

text \<open>
  Case 2, a new head: screen the bloom; on a pass fetch the block's logs,
  filter them, and store the block with the matched logs and the transactions
  they reference when at least one log matched.
\<close>

definition handle_new_head ::
  "rpc \<Rightarrow> rt_config \<Rightarrow> rt_state \<Rightarrow> block_with_transactions \<Rightarrow> rt_state \<times> sync_error option" where
  "handle_new_head env cfg s b =
     (if isMatchedLogInBloomFilter (bloomMask cfg) (logsBloom b) (logFilters cfg) then
        (case rpc_logs env (hash b) of
           None \<Rightarrow> (s, Some (GetLogsFailed (hash b)))
         | Some ls \<Rightarrow>
             (let matched = filterLogs ls (logFilters cfg);
                  txs = filter (\<lambda>t. tx_hash t \<in> set (map transactionHash matched)) (transactions b);
                  s1 = (if matched \<noteq> [] then s\<lparr>store := insertRealtimeBlock (store s) b txs matched\<rparr>
                        else s)
              in accept_head cfg s1 b (length matched)))
      else accept_head cfg s b 0)"

text \<open>
  Case 3, a gap: fetch every missing number \<open>range(head + 1, number)\<close> (a
  failed fetch throws before anything changes) and queue the fetched blocks
  and the new block.
\<close>

definition fetch_block_number :: "rpc \<Rightarrow> block_number \<Rightarrow> sync_error + block_with_transactions" where
  "fetch_block_number env n =
     (case rpc_block_by_number env n of None \<Rightarrow> Inl (FailedToFetchBlockNumber n) | Some b \<Rightarrow> Inr b)"

definition handle_gap ::
  "rpc \<Rightarrow> rt_state \<Rightarrow> light_block \<Rightarrow> block_with_transactions \<Rightarrow> rt_state \<times> sync_error option" where
  "handle_gap env s h b =
     (case map_result (fetch_block_number env) [number h + 1 ..< number b] of
        Inl e \<Rightarrow> (s, Some e)
      | Inr bs \<Rightarrow> (s\<lparr>queue := foldl add_block_task (queue s) (bs @ [b])\<rparr>, None))"

text \<open>
  Case 4, a reorg: walk the canonical chain up by parent hash, collecting the
  fetched blocks, until a parent is on the local chain (a common ancestor) or
  the walk reaches the finalized number (a deep reorg).
\<close>

datatype reorg_outcome =
    CommonAncestor light_block "block_with_transactions list" nat
  | ParentNotFetched hash
  | NoCommonAncestor nat

partial_function (option) reorg_walk ::
  "rpc \<Rightarrow> block_number \<Rightarrow> light_block list \<Rightarrow> block_with_transactions list \<Rightarrow> light_block \<Rightarrow> nat
   \<Rightarrow> reorg_outcome option" where
  "reorg_walk env fin chain canon cur depth =
     (if fin < number cur then
        (case find (\<lambda>b. hash b = parentHash cur) chain of
           Some a \<Rightarrow> Some (CommonAncestor a canon depth)
         | None \<Rightarrow>
             (case rpc_block_by_hash env (parentHash cur) of
                None \<Rightarrow> Some (ParentNotFetched (parentHash cur))
              | Some p \<Rightarrow> reorg_walk env fin chain (p # canon) (rpcBlockToLightBlock p) (Suc depth)))
      else Some (NoCommonAncestor depth))"

definition handle_reorg ::
  "rpc \<Rightarrow> rt_state \<Rightarrow> block_with_transactions \<Rightarrow> (rt_state \<times> sync_error option) option" where
  "handle_reorg env s b =
     map_option
       (\<lambda>r. case r of
          ParentNotFetched h \<Rightarrow> (s, Some (FailedToFetchParentBlock h))
        | NoCommonAncestor d \<Rightarrow> (s\<lparr>events := events s @ [DeepReorg (number b) d]\<rparr>, None)
        | CommonAncestor a canon d \<Rightarrow>
            (let s1 = s\<lparr>blocks := filter (\<lambda>x. number x \<le> number a) (blocks s),
                        store := deleteRealtimeData (store s) (number a + 1),
                        queue := foldl add_block_task (queue_clear (queue s)) canon\<rparr>
             in case addNewLatestBlock env s1 of
                  Inl e \<Rightarrow> (s1, Some e)
                | Inr s2 \<Rightarrow> (s2\<lparr>events := events s2 @ [ShallowReorg (timestamp a)]\<rparr>, None)))
       (reorg_walk env (finalizedBlockNumber s) (blocks s) [b] (rpcBlockToLightBlock b) 0)"

text \<open>
  \<open>blockTaskWorker\<close>: the four cases in the code's order. The head is the last
  local block; reading it when there is none is a \<open>TypeError\<close>.
\<close>

definition blockTaskWorker ::
  "rpc \<Rightarrow> rt_config \<Rightarrow> rt_state \<Rightarrow> block_with_transactions \<Rightarrow> (rt_state \<times> sync_error option) option" where
  "blockTaskWorker env cfg s b =
     (if list_ex (\<lambda>x. hash x = hash b) (blocks s) then Some (s, None)
      else if blocks s = [] then Some (s, Some HeadBlockUndefined)
      else (let h = last (blocks s)
            in if number b = number h + 1 \<and> parentHash b = hash h
               then Some (handle_new_head env cfg s b)
               else if number h + 1 < number b then Some (handle_gap env s h b)
               else handle_reorg env s b))"

text \<open>The queue's \<open>onError\<close> hook emits the error; the task is not retried.\<close>

definition onError :: "rt_state \<Rightarrow> sync_error \<Rightarrow> rt_state" where
  "onError s e = s\<lparr>events := events s @ [ErrorEvent e]\<rparr>"

definition run_task ::
  "rpc \<Rightarrow> rt_config \<Rightarrow> rt_state \<Rightarrow> block_with_transactions \<Rightarrow> rt_state option" where
  "run_task env cfg s b =
     map_option (\<lambda>(s', r). case r of None \<Rightarrow> s' | Some e \<Rightarrow> onError s' e) (blockTaskWorker env cfg s b)"

section \<open>The service as a transition system\<close>

text \<open>
  One step is a poll adding the latest block, one task of the single worker
  (the first task of the highest priority, processed to completion), a task
  during which \<open>kill\<close> lands before the task's first effect (the task still
  runs to completion, its additions landing in the paused, cleared queue), or
  \<open>kill\<close>. The endpoint may answer differently at every step.
\<close>

inductive rt_step :: "rt_config \<Rightarrow> rt_state \<Rightarrow> rt_state \<Rightarrow> bool" where
  poll: "polling s \<Longrightarrow> addNewLatestBlock env s = Inr s' \<Longrightarrow> rt_step cfg s s'"
| work: "q_started (queue s) \<Longrightarrow> pop (queue s) = Some (b, q) \<Longrightarrow>
         run_task env cfg (s\<lparr>queue := q\<rparr>) b = Some s' \<Longrightarrow> rt_step cfg s s'"
| work_killed: "q_started (queue s) \<Longrightarrow> pop (queue s) = Some (b, q) \<Longrightarrow>
         run_task env cfg (kill (s\<lparr>queue := q\<rparr>)) b = Some s' \<Longrightarrow> rt_step cfg s s'"
| stop: "rt_step cfg s (kill s)"

section \<open>Invariant of the service state\<close>

text \<open>
  The local chain of the spec (section 3): consecutive blocks have consecutive
  numbers and are linked by parent hash, and the first block is the finalized
  one. The priorities of the queued tasks are those of their blocks; the cached
  intervals are canonical and end at or below the finalized number.
\<close>

fun linked :: "light_block list \<Rightarrow> bool" where
  "linked (a # b # rest) = (number b = Suc (number a) \<and> parentHash b = hash a \<and> linked (b # rest))"
| "linked _ = True"

definition chain_ok :: "rt_state \<Rightarrow> bool" where
  "chain_ok s =
     (blocks s \<noteq> [] \<and> number (hd (blocks s)) = finalizedBlockNumber s \<and> linked (blocks s))"

definition prio_ok :: "block_with_transactions task_queue \<Rightarrow> bool" where
  "prio_ok q = (\<forall>(p, b) \<in> set (q_tasks q). p = block_priority b)"

definition rt_inv :: "rt_state \<Rightarrow> bool" where
  "rt_inv s =
     ((blocks s \<noteq> [] \<longrightarrow> chain_ok s) \<and> (q_started (queue s) \<longrightarrow> blocks s \<noteq> [])
      \<and> table_wf (intervals (store s))
      \<and> (\<forall>r \<in> set (intervals (store s)). endBlock r \<le> finalizedBlockNumber s)
      \<and> prio_ok (queue s))"

text \<open>
  The states of a run: \<open>setup\<close> and \<open>start\<close> on a fresh service whose store
  holds canonical intervals ending at or below the finalized number (the
  historical backfill's part), with the endpoint answering the by-number
  request of \<open>start\<close> with a block of that number; then any sequence of steps.
\<close>

inductive reachable :: "rt_config \<Rightarrow> rt_state \<Rightarrow> bool" for cfg where
  init: "setup_service env cfg (new_service st) = Inr (r, s1) \<Longrightarrow> start env' cfg s1 = Inr s2 \<Longrightarrow>
         (\<forall>b. rpc_block_by_number env' (finalizedBlockNumber s1) = Some b
              \<longrightarrow> number b = finalizedBlockNumber s1) \<Longrightarrow>
         table_wf (intervals st) \<Longrightarrow>
         (\<forall>r \<in> set (intervals st). endBlock r \<le> finalizedBlockNumber s1) \<Longrightarrow> reachable cfg s2"
| step: "reachable cfg s \<Longrightarrow> rt_step cfg s s' \<Longrightarrow> reachable cfg s'"

text \<open>The errors that come from the endpoint (a failed or null answer).\<close>

fun rpc_error :: "sync_error \<Rightarrow> bool" where
  "rpc_error UnableToFetchLatestBlock = True"
| "rpc_error (FailedToFetchBlockNumber _) = True"
| "rpc_error (FailedToFetchParentBlock _) = True"
| "rpc_error (GetLogsFailed _) = True"
| "rpc_error _ = False"

text \<open>
  An endpoint whose by-hash answers descend: the parent it serves for a block
  it served has a smaller number (as on a real chain).
\<close>

definition rpc_parents_descend :: "rpc \<Rightarrow> bool" where
  "rpc_parents_descend env =
     (\<forall>h p q. rpc_block_by_hash env h = Some p \<longrightarrow> rpc_block_by_hash env (parentHash p) = Some q
              \<longrightarrow> number q < number p)"

section \<open>Lemmas on the local chain and the queue\<close>

lemma linked_ConsD: "linked (a # xs) \<Longrightarrow> linked xs \<and> (xs \<noteq> [] \<longrightarrow> number (hd xs) = Suc (number a))"
  by (cases xs) auto

lemma linked_nth: "linked xs \<Longrightarrow> i < length xs \<Longrightarrow> number (xs ! i) = number (hd xs) + i"
proof (induction xs arbitrary: i)
  case (Cons a xs)
  show ?case
  proof (cases i)
    case (Suc j)
    with Cons.prems have "j < length xs" "xs \<noteq> []" by auto
    with Cons.IH[of j] Cons.prems(1) Suc show ?thesis by (auto dest: linked_ConsD)
  qed simp
qed simp

lemma linked_above_hd: "linked (a # xs) \<Longrightarrow> b \<in> set xs \<Longrightarrow> number a < number b"
  using linked_nth[of "a # xs"] by (fastforce simp: in_set_conv_nth)

lemma linked_append:
  "linked (xs @ [b]) \<longleftrightarrow>
     linked xs \<and> (xs \<noteq> [] \<longrightarrow> number b = Suc (number (last xs)) \<and> parentHash b = hash (last xs))"
proof (induction xs rule: linked.induct)
  case (1 a c rest)
  then show ?case by auto
qed simp_all

lemma linked_drop: "linked xs \<Longrightarrow> linked (drop n xs)"
proof (induction xs arbitrary: n)
  case (Cons a xs)
  then show ?case by (cases n) (auto dest: linked_ConsD)
qed simp

lemma linked_take: "linked xs \<Longrightarrow> linked (take n xs)"
proof (induction xs arbitrary: n rule: linked.induct)
  case (1 a b rest)
  show ?case
  proof (cases n)
    case (Suc m)
    show ?thesis
    proof (cases m)
      case (Suc m')
      from "1.prems" have "linked (b # rest)" by simp
      then have "linked (take (Suc m') (b # rest))" by (rule "1.IH")
      with "1.prems" \<open>n = Suc m\<close> Suc show ?thesis by simp
    qed (simp add: \<open>n = Suc m\<close>)
  qed simp
qed (auto simp: take_Cons')

lemma linked_filter_ge:
  "linked xs \<Longrightarrow> filter (\<lambda>b. k \<le> number b) xs = drop (k - number (hd xs)) xs"
proof (induction xs)
  case (Cons a xs)
  have all: "\<forall>b \<in> set xs. number a < number b" using Cons.prems linked_above_hd by blast
  show ?case
  proof (cases "k \<le> number a")
    case True
    with all have "filter (\<lambda>b. k \<le> number b) xs = xs" by (force simp: filter_id_conv)
    with True show ?thesis by simp
  next
    case False
    then have f: "filter (\<lambda>b. k \<le> number b) (a # xs) = filter (\<lambda>b. k \<le> number b) xs" by simp
    show ?thesis
    proof (cases "xs = []")
      case True
      with False show ?thesis by simp
    next
      case ne: False
      from Cons.prems ne have "linked xs" "number (hd xs) = Suc (number a)" by (auto dest: linked_ConsD)
      with Cons.IH f False show ?thesis
        by (simp add: Suc_diff_Suc[symmetric])
    qed
  qed
qed simp

lemma linked_filter_le:
  "linked xs \<Longrightarrow> filter (\<lambda>b. number b \<le> k) xs = take (Suc k - number (hd xs)) xs"
proof (induction xs)
  case (Cons a xs)
  have all: "\<forall>b \<in> set xs. number a < number b" using Cons.prems linked_above_hd by blast
  show ?case
  proof (cases "number a \<le> k")
    case False
    with all have "filter (\<lambda>b. number b \<le> k) xs = []" by (auto simp: filter_empty_conv)
    with False show ?thesis by simp
  next
    case True
    show ?thesis
    proof (cases "xs = []")
      case True
      with \<open>number a \<le> k\<close> show ?thesis by (simp add: Suc_diff_le)
    next
      case ne: False
      from Cons.prems ne have "linked xs" "number (hd xs) = Suc (number a)" by (auto dest: linked_ConsD)
      with Cons.IH True show ?thesis by (simp add: Suc_diff_le)
    qed
  qed
qed simp

lemma intervals_realtime_writes [simp]:
  "intervals (insertRealtimeBlock st b ts ls) = intervals st"
  "intervals (deleteRealtimeData st n) = intervals st"
  by (simp_all add: insertRealtimeBlock_def deleteRealtimeData_def backfill_block_timestamp_def
                    insertLogs_def insertTransactions_def insert_block_row_def)

lemma q_started_add_block_task [simp]: "q_started (add_block_task q b) = q_started q"
  by (simp add: add_block_task_def addTask_def)

lemma q_started_foldl_add [simp]: "q_started (foldl add_block_task q bs) = q_started q"
  by (induction bs arbitrary: q) simp_all

lemma q_started_clear [simp]: "q_started (queue_clear q) = q_started q"
  by (simp add: queue_clear_def)

lemma prio_ok_add [simp]: "prio_ok q \<Longrightarrow> prio_ok (add_block_task q b)"
  by (simp add: prio_ok_def add_block_task_def addTask_def)

lemma prio_ok_foldl [simp]: "prio_ok q \<Longrightarrow> prio_ok (foldl add_block_task q bs)"
  by (induction bs arbitrary: q) simp_all

lemma prio_ok_clear [simp]: "prio_ok (queue_clear q)"
  by (simp add: prio_ok_def queue_clear_def)

lemma linked_hd_le: "linked xs \<Longrightarrow> b \<in> set xs \<Longrightarrow> number (hd xs) \<le> number b"
  using linked_nth by (fastforce simp: in_set_conv_nth)

lemma linked_last: "linked xs \<Longrightarrow> xs \<noteq> [] \<Longrightarrow> number (last xs) = number (hd xs) + (length xs - 1)"
  using linked_nth[of xs "length xs - 1"] by (simp add: last_conv_nth)

lemma linked_take_last:
  assumes lk: "linked xs" and a: "a \<in> set xs"
  shows "last (take (Suc (number a) - number (hd xs)) xs) = a"
proof -
  obtain i where i: "i < length xs" "xs ! i = a" using a by (auto simp: in_set_conv_nth)
  have "number a = number (hd xs) + i" using linked_nth[OF lk i(1)] i(2) by simp
  then have "Suc (number a) - number (hd xs) = Suc i" by simp
  with i show ?thesis by (simp add: take_Suc_conv_app_nth)
qed

lemma reorg_walk_unfold:
  "\<not> fin < number cur \<Longrightarrow> reorg_walk env fin chain canon cur d = Some (NoCommonAncestor d)"
  "fin < number cur \<Longrightarrow> find (\<lambda>b. hash b = parentHash cur) chain = Some a \<Longrightarrow>
     reorg_walk env fin chain canon cur d = Some (CommonAncestor a canon d)"
  "fin < number cur \<Longrightarrow> find (\<lambda>b. hash b = parentHash cur) chain = None \<Longrightarrow>
     rpc_block_by_hash env (parentHash cur) = None \<Longrightarrow>
     reorg_walk env fin chain canon cur d = Some (ParentNotFetched (parentHash cur))"
  "fin < number cur \<Longrightarrow> find (\<lambda>b. hash b = parentHash cur) chain = None \<Longrightarrow>
     rpc_block_by_hash env (parentHash cur) = Some p \<Longrightarrow>
     reorg_walk env fin chain canon cur d = reorg_walk env fin chain (p # canon) (rpcBlockToLightBlock p) (Suc d)"
  by (subst reorg_walk.simps; simp)+

lemma q_tasks_foldl_add:
  "q_tasks (foldl add_block_task q bs) = q_tasks q @ map (\<lambda>x. (block_priority x, x)) bs"
  by (induction bs arbitrary: q) (simp_all add: add_block_task_def addTask_def)

lemma linked_sorted: "linked xs \<Longrightarrow> sorted_wrt (\<lambda>a b. number a < number b) xs"
proof (induction xs)
  case (Cons a xs)
  then show ?case using linked_above_hd[OF Cons.prems] by (auto dest: linked_ConsD)
qed simp

lemma linked_parent_nth:
  "linked xs \<Longrightarrow> Suc i < length xs \<Longrightarrow> parentHash (xs ! Suc i) = hash (xs ! i)"
proof (induction xs arbitrary: i rule: linked.induct)
  case (1 a b rest)
  then show ?case by (cases i) auto
qed auto

end
