(* ===== verification/Realtime_Invariant.thy ===== *)
theory Realtime_Invariant
  imports Realtime
begin

text \<open>
  The behaviour of the realtime worker: one lemma per handler of
  \<open>blockTaskWorker\<close> (finality advance, new head, gap, reorg) giving its
  result and that it keeps the service invariant \<open>rt_inv\<close>; then the
  invariant of every reachable state by rule induction over \<open>reachable\<close>,
  the origin of every emitted error, termination and divergence of the reorg
  walk, the order in which the queue serves blocks, and the state a shallow
  reorg leaves.
\<close>

lemma advance_finality_result:
  assumes ch: "chain_ok s" and big: "finalizedBlockNumber s + 2 * finalityBlockCount cfg < number (last (blocks s))"
  defines "f \<equiv> finalizedBlockNumber s" and "c \<equiv> finalityBlockCount cfg"
  shows "finalityBlockCount cfg < length (blocks s) \<and> number (blocks s ! c) = f + c \<and>
         (\<exists>tbl. insertLogFilterCachedRanges (intervals (store s)) (map filter_key (logFilters cfg))
                  (Suc f) (f + c) (timestamp (blocks s ! c)) = Inr tbl
         \<and> advance_finality cfg s =
            (s\<lparr>blocks := drop c (blocks s), stats := (\<lambda>n. if n < f + c then None else stats s n),
               store := (store s)\<lparr>intervals := tbl\<rparr>, finalizedBlockNumber := f + c,
               events := events s @ [FinalityCheckpoint (timestamp (blocks s ! c))]\<rparr>, None))"
proof -
  let ?xs = "blocks s"
  have ne: "?xs \<noteq> []" and hd: "number (hd ?xs) = f" and lk: "linked ?xs"
    using ch by (auto simp: chain_ok_def f_def)
  have "number (last ?xs) = f + (length ?xs - 1)" using linked_last[OF lk ne] hd by simp
  with big have clt: "c < length ?xs" by (simp add: f_def c_def)
  have nth: "number (?xs ! c) = f + c" using linked_nth[OF lk clt] hd by simp
  obtain fb where find: "find (\<lambda>b. number b = f + c) ?xs = Some fb"
    using find_Some_exists[of "?xs ! c" ?xs "\<lambda>b. number b = f + c"] nth clt by auto
  have "fb = ?xs ! c"
  proof -
    obtain i where i: "i < length ?xs" "fb = ?xs ! i"
      using find_Some_in_set[OF find] by (auto simp: in_set_conv_nth)
    have "number fb = f + c" using find by (auto dest: find_Some_in_set)
    then have "i = c" using linked_nth[OF lk i(1)] hd i(2) by simp
    with i show ?thesis by simp
  qed
  with find have find': "find (\<lambda>b. number b = f + c) ?xs = Some (?xs ! c)" by simp
  have filt: "filter (\<lambda>b. f + c \<le> number b) ?xs = drop c ?xs"
    using linked_filter_ge[OF lk] hd by simp
  obtain tbl where ins: "insertLogFilterCachedRanges (intervals (store s)) (map filter_key (logFilters cfg))
                          (Suc f) (f + c) (timestamp (?xs ! c)) = Inr tbl"
    using insertLogFilterCachedRanges_Inr by blast
  have "advance_finality cfg s =
            (s\<lparr>blocks := drop c ?xs, stats := (\<lambda>n. if n < f + c then None else stats s n),
               store := (store s)\<lparr>intervals := tbl\<rparr>, finalizedBlockNumber := f + c,
               events := events s @ [FinalityCheckpoint (timestamp (?xs ! c))]\<rparr>, None)"
    using find' filt ins nth by (simp add: advance_finality_def Let_def f_def c_def)
  with ins clt nth show ?thesis by (auto simp: c_def)
qed

lemma advance_finality_ok:
  assumes inv: "rt_inv s" and ch: "chain_ok s" and c: "0 < finalityBlockCount cfg"
    and big: "finalizedBlockNumber s + 2 * finalityBlockCount cfg < number (last (blocks s))"
  shows "snd (advance_finality cfg s) = None \<and> rt_inv (fst (advance_finality cfg s))
         \<and> finalizedBlockNumber (fst (advance_finality cfg s)) = finalizedBlockNumber s + finalityBlockCount cfg"
proof -
  let ?xs = "blocks s" and ?f = "finalizedBlockNumber s" and ?c = "finalityBlockCount cfg"
  obtain tbl where clt: "?c < length ?xs" and nth: "number (?xs ! ?c) = ?f + ?c"
    and ins: "insertLogFilterCachedRanges (intervals (store s)) (map filter_key (logFilters cfg))
                  (Suc ?f) (?f + ?c) (timestamp (?xs ! ?c)) = Inr tbl"
    and res: "advance_finality cfg s =
            (s\<lparr>blocks := drop ?c ?xs, stats := (\<lambda>n. if n < ?f + ?c then None else stats s n),
               store := (store s)\<lparr>intervals := tbl\<rparr>, finalizedBlockNumber := ?f + ?c,
               events := events s @ [FinalityCheckpoint (timestamp (?xs ! ?c))]\<rparr>, None)"
    using advance_finality_result[OF ch big] by blast
  have lk: "linked ?xs" using ch by (simp add: chain_ok_def)
  have wf0: "table_wf (intervals (store s))" and ends0: "\<forall>r \<in> set (intervals (store s)). endBlock r \<le> ?f + ?c"
    using inv by (force simp: rt_inv_def)+
  have tbl: "table_wf tbl \<and> (\<forall>r \<in> set tbl. endBlock r \<le> ?f + ?c)"
    using insertLogFilterCachedRanges_wf_ends[OF ins wf0 _ ends0] c by simp
  have "drop ?c ?xs \<noteq> []" "number (hd (drop ?c ?xs)) = ?f + ?c" "linked (drop ?c ?xs)"
    using clt nth lk by (simp_all add: hd_drop_conv_nth linked_drop)
  then show ?thesis using res tbl inv by (simp add: rt_inv_def chain_ok_def)
qed

lemma accept_head_ok:
  assumes inv: "rt_inv s" and ch: "chain_ok s" and c: "0 < finalityBlockCount cfg"
    and nb: "number b = Suc (number (last (blocks s)))" and pb: "parentHash b = hash (last (blocks s))"
  shows "snd (accept_head cfg s b cnt) = None \<and> rt_inv (fst (accept_head cfg s b cnt))
         \<and> finalizedBlockNumber s \<le> finalizedBlockNumber (fst (accept_head cfg s b cnt))"
proof -
  let ?s1 = "s\<lparr>events := events s @ [RealtimeCheckpoint (timestamp b)],
                blocks := blocks s @ [rpcBlockToLightBlock b], stats := (stats s)(number b \<mapsto> cnt)\<rparr>"
  have ne: "blocks s \<noteq> []" using ch by (simp add: chain_ok_def)
  have ch1: "chain_ok ?s1"
    using ch nb pb ne by (simp add: chain_ok_def linked_append rpcBlockToLightBlock_def)
  have inv1: "rt_inv ?s1" using inv ch1 by (simp add: rt_inv_def)
  show ?thesis
  proof (cases "finalizedBlockNumber s + 2 * finalityBlockCount cfg < number b")
    case True
    then have "finalizedBlockNumber ?s1 + 2 * finalityBlockCount cfg < number (last (blocks ?s1))"
      by (simp add: rpcBlockToLightBlock_def)
    from advance_finality_ok[OF inv1 ch1 c this] True show ?thesis
      by (simp add: accept_head_def Let_def)
  next
    case False
    with inv1 show ?thesis by (simp add: accept_head_def Let_def)
  qed
qed

lemma handle_new_head_ok:
  assumes inv: "rt_inv s" and ch: "chain_ok s" and c: "0 < finalityBlockCount cfg"
    and nb: "number b = Suc (number (last (blocks s)))" and pb: "parentHash b = hash (last (blocks s))"
    and res: "handle_new_head env cfg s b = (s', e)"
  shows "rt_inv s' \<and> finalizedBlockNumber s \<le> finalizedBlockNumber s'
         \<and> (e = None \<or> e = Some (GetLogsFailed (hash b)))"
proof -
  have acc: "\<And>s1 cnt. rt_inv s1 \<Longrightarrow> chain_ok s1 \<Longrightarrow> blocks s1 = blocks s \<Longrightarrow>
      finalizedBlockNumber s1 = finalizedBlockNumber s \<Longrightarrow> accept_head cfg s1 b cnt = (s', e) \<Longrightarrow>
      rt_inv s' \<and> finalizedBlockNumber s \<le> finalizedBlockNumber s' \<and> e = None"
    using accept_head_ok c nb pb by (metis fst_conv snd_conv)
  show ?thesis
  proof (cases "isMatchedLogInBloomFilter (bloomMask cfg) (logsBloom b) (logFilters cfg)")
    case True
    show ?thesis
    proof (cases "rpc_logs env (hash b)")
      case None
      with True res inv show ?thesis by (simp add: handle_new_head_def)
    next
      case (Some ls)
      let ?m = "filterLogs ls (logFilters cfg)"
      let ?txs = "filter (\<lambda>t. tx_hash t \<in> set (map transactionHash ?m)) (transactions b)"
      let ?s1 = "if ?m \<noteq> [] then s\<lparr>store := insertRealtimeBlock (store s) b ?txs ?m\<rparr> else s"
      have "rt_inv ?s1" "chain_ok ?s1" "blocks ?s1 = blocks s" "finalizedBlockNumber ?s1 = finalizedBlockNumber s"
        using inv ch by (simp_all add: rt_inv_def chain_ok_def)
      moreover have "accept_head cfg ?s1 b (length ?m) = (s', e)"
        using res by (simp only: handle_new_head_def Let_def True Some if_True option.simps)
      ultimately show ?thesis using acc by blast
    qed
  next
    case False
    then have "accept_head cfg s b 0 = (s', e)" using res by (simp add: handle_new_head_def)
    with acc inv ch show ?thesis by blast
  qed
qed

lemma handle_gap_ok:
  assumes inv: "rt_inv s" and res: "handle_gap env s h b = (s', e)"
  shows "rt_inv s' \<and> finalizedBlockNumber s' = finalizedBlockNumber s \<and> blocks s' = blocks s
         \<and> (\<forall>x. e = Some x \<longrightarrow> rpc_error x)"
proof (cases "map_result (fetch_block_number env) [number h + 1 ..< number b]")
  case (Inl err)
  obtain n where "fetch_block_number env n = Inl err" using map_result_Inl[OF Inl] by blast
  then have "err = FailedToFetchBlockNumber n"
    by (simp add: fetch_block_number_def split: option.splits)
  with Inl res inv show ?thesis by (auto simp: handle_gap_def)
next
  case (Inr bs)
  with res inv show ?thesis by (auto simp: handle_gap_def rt_inv_def chain_ok_def)
qed

lemma reorg_walk_ancestor:
  assumes "reorg_walk env fin chain canon cur d = Some r"
  shows "\<forall>a canon' d'. r = CommonAncestor a canon' d' \<longrightarrow> a \<in> set chain"
proof (rule reorg_walk.raw_induct
    [where P = "\<lambda>env fin chain canon cur d r. \<forall>a canon' d'. r = CommonAncestor a canon' d' \<longrightarrow> a \<in> set chain",
     OF _ assms])
  fix f :: "rpc \<Rightarrow> block_number \<Rightarrow> light_block list \<Rightarrow> block_with_transactions list \<Rightarrow> light_block
            \<Rightarrow> nat \<Rightarrow> reorg_outcome option"
  fix env fin chain canon d r and cur :: light_block
  assume IH: "\<And>env fin chain canon cur d r. f env fin chain canon cur d = Some r \<Longrightarrow>
      \<forall>a canon' d'. r = CommonAncestor a canon' d' \<longrightarrow> a \<in> set chain"
    and eq: "(if fin < number cur then
        (case find (\<lambda>b. hash b = parentHash cur) chain of
           Some a \<Rightarrow> Some (CommonAncestor a canon d)
         | None \<Rightarrow>
             (case rpc_block_by_hash env (parentHash cur) of
                None \<Rightarrow> Some (ParentNotFetched (parentHash cur))
              | Some p \<Rightarrow> f env fin chain (p # canon) (rpcBlockToLightBlock p) (Suc d)))
      else Some (NoCommonAncestor d)) = Some r"
  show "\<forall>a canon' d'. r = CommonAncestor a canon' d' \<longrightarrow> a \<in> set chain"
    using eq IH by (auto split: if_splits option.splits dest: find_Some_in_set)
qed

lemma handle_reorg_ok:
  assumes inv: "rt_inv s" and ch: "chain_ok s"
    and res: "handle_reorg env s b = Some (s', e)"
  shows "rt_inv s' \<and> finalizedBlockNumber s' = finalizedBlockNumber s \<and> (\<forall>x. e = Some x \<longrightarrow> rpc_error x)"
proof -
  obtain r where walk: "reorg_walk env (finalizedBlockNumber s) (blocks s) [b] (rpcBlockToLightBlock b) 0 = Some r"
    and out: "(case r of
          ParentNotFetched h \<Rightarrow> (s, Some (FailedToFetchParentBlock h))
        | NoCommonAncestor d \<Rightarrow> (s\<lparr>events := events s @ [DeepReorg (number b) d]\<rparr>, None)
        | CommonAncestor a canon d \<Rightarrow>
            (let s1 = s\<lparr>blocks := filter (\<lambda>x. number x \<le> number a) (blocks s),
                        store := deleteRealtimeData (store s) (number a + 1),
                        queue := foldl add_block_task (queue_clear (queue s)) canon\<rparr>
             in case addNewLatestBlock env s1 of
                  Inl e \<Rightarrow> (s1, Some e)
                | Inr s2 \<Rightarrow> (s2\<lparr>events := events s2 @ [ShallowReorg (timestamp a)]\<rparr>, None))) = (s', e)"
    using res by (auto simp: handle_reorg_def)
  show ?thesis
  proof (cases r)
    case (CommonAncestor a canon d)
    have a: "a \<in> set (blocks s)" using reorg_walk_ancestor[OF walk] CommonAncestor by blast
    let ?xs = "blocks s"
    have ne: "?xs \<noteq> []" and hd: "number (hd ?xs) = finalizedBlockNumber s" and lk: "linked ?xs"
      using ch by (auto simp: chain_ok_def)
    have le: "number (hd ?xs) \<le> number a" using linked_hd_le[OF lk a] .
    let ?k = "Suc (number a) - number (hd ?xs)"
    have filt: "filter (\<lambda>x. number x \<le> number a) ?xs = take ?k ?xs" using linked_filter_le[OF lk] .
    have k: "0 < ?k" using le by simp
    let ?s1 = "s\<lparr>blocks := take ?k ?xs, store := deleteRealtimeData (store s) (number a + 1),
                 queue := foldl add_block_task (queue_clear (queue s)) canon\<rparr>"
    have inv1: "rt_inv ?s1"
      using inv ne hd lk k by (simp add: rt_inv_def chain_ok_def linked_take hd_take)
    have s1: "s' = ?s1 \<and> e = Some UnableToFetchLatestBlock \<or>
              (\<exists>s2. addNewLatestBlock env ?s1 = Inr s2 \<and> s' = s2\<lparr>events := events s2 @ [ShallowReorg (timestamp a)]\<rparr> \<and> e = None)"
      using out CommonAncestor filt
      by (auto simp: addNewLatestBlock_def getLatestBlock_def split: sum.splits option.splits)
    then show ?thesis
    proof
      assume "s' = ?s1 \<and> e = Some UnableToFetchLatestBlock"
      with inv1 show ?thesis by simp
    next
      assume "\<exists>s2. addNewLatestBlock env ?s1 = Inr s2 \<and> s' = s2\<lparr>events := events s2 @ [ShallowReorg (timestamp a)]\<rparr> \<and> e = None"
      with inv1 show ?thesis
        by (auto simp: addNewLatestBlock_def getLatestBlock_def rt_inv_def chain_ok_def split: option.splits)
    qed
  next
    case (ParentNotFetched h)
    with out inv show ?thesis by auto
  next
    case (NoCommonAncestor d)
    with out inv show ?thesis by (auto simp: rt_inv_def chain_ok_def)
  qed
qed

lemma blockTaskWorker_ok:
  assumes inv: "rt_inv s" and c: "0 < finalityBlockCount cfg"
    and res: "blockTaskWorker env cfg s b = Some (s', e)"
  shows "rt_inv s' \<and> finalizedBlockNumber s \<le> finalizedBlockNumber s'
         \<and> (\<forall>x. e = Some x \<longrightarrow> rpc_error x \<or> (x = HeadBlockUndefined \<and> blocks s = []))"
proof (cases "list_ex (\<lambda>x. hash x = hash b) (blocks s)")
  case True
  with res inv show ?thesis by (simp add: blockTaskWorker_def)
next
  case dup: False
  show ?thesis
  proof (cases "blocks s = []")
    case True
    with res inv dup show ?thesis by (auto simp: blockTaskWorker_def)
  next
    case ne: False
    then have ch: "chain_ok s" using inv by (simp add: rt_inv_def)
    let ?h = "last (blocks s)"
    show ?thesis
    proof (cases "number b = number ?h + 1 \<and> parentHash b = hash ?h")
      case True
      then have "handle_new_head env cfg s b = (s', e)"
        using res dup ne by (simp add: blockTaskWorker_def Let_def)
      from handle_new_head_ok[OF inv ch c _ _ this] True show ?thesis by auto
    next
      case nh: False
      show ?thesis
      proof (cases "number ?h + 1 < number b")
        case True
        then have "handle_gap env s ?h b = (s', e)"
          using res dup ne nh by (simp add: blockTaskWorker_def Let_def)
        from handle_gap_ok[OF inv this] show ?thesis by auto
      next
        case False
        then have "handle_reorg env s b = Some (s', e)"
          using res dup ne nh by (auto simp: blockTaskWorker_def Let_def split: if_splits)
        from handle_reorg_ok[OF inv ch this] show ?thesis by auto
      qed
    qed
  qed
qed

lemma run_task_ok:
  assumes "rt_inv s" "0 < finalityBlockCount cfg" "run_task env cfg s b = Some s'"
  shows "rt_inv s' \<and> finalizedBlockNumber s \<le> finalizedBlockNumber s'"
proof -
  from assms(3) obtain s1 e where w: "blockTaskWorker env cfg s b = Some (s1, e)"
    and s': "s' = (case e of None \<Rightarrow> s1 | Some x \<Rightarrow> onError s1 x)"
    by (auto simp: run_task_def)
  from blockTaskWorker_ok[OF assms(1,2) w] s' show ?thesis
    by (cases e) (auto simp: onError_def rt_inv_def chain_ok_def)
qed

lemma pop_prio_ok:
  assumes "pop q = Some (b, q')" "prio_ok q"
  shows "prio_ok q' \<and> q_started q' = q_started q"
  using pop_Some[OF assms(1)] assms(2) by (auto simp: prio_ok_def)

lemma kill_inv:
  "rt_inv s \<Longrightarrow> rt_inv (kill s)"
  "finalizedBlockNumber (kill s) = finalizedBlockNumber s" "blocks (kill s) = blocks s"
  "events (kill s) = events s"
  by (simp_all add: kill_def rt_inv_def chain_ok_def queue_clear_def queue_pause_def prio_ok_def)

lemma rt_step_inv:
  assumes "rt_step cfg s s'" "rt_inv s" "0 < finalityBlockCount cfg"
  shows "rt_inv s' \<and> finalizedBlockNumber s \<le> finalizedBlockNumber s'"
  using assms
proof (induction rule: rt_step.induct)
  case (poll s env s')
  then show ?case
    by (auto simp: addNewLatestBlock_def getLatestBlock_def rt_inv_def chain_ok_def split: option.splits)
next
  case (work s b q env s')
  have "prio_ok q \<and> q_started q = q_started (queue s)"
    using pop_prio_ok[OF work(2)] work(4) by (simp add: rt_inv_def)
  then have "rt_inv (s\<lparr>queue := q\<rparr>)" using work(4) by (simp add: rt_inv_def chain_ok_def)
  from run_task_ok[OF this work(5) work(3)] show ?case by simp
next
  case (work_killed s b q env s')
  have "prio_ok q \<and> q_started q = q_started (queue s)"
    using pop_prio_ok[OF work_killed(2)] work_killed(4) by (simp add: rt_inv_def)
  then have "rt_inv (s\<lparr>queue := q\<rparr>)" using work_killed(4) by (simp add: rt_inv_def chain_ok_def)
  from run_task_ok[OF kill_inv(1)[OF this] work_killed(5) work_killed(3)] show ?case
    by (simp add: kill_inv)
next
  case (stop s)
  then show ?case by (simp add: kill_inv)
qed

lemma start_inv:
  assumes inv: "rt_inv s" and nb: "blocks s = []"
    and hon: "\<forall>b. rpc_block_by_number env (finalizedBlockNumber s) = Some b
              \<longrightarrow> number b = finalizedBlockNumber s"
    and st: "start env cfg s = Inr s'"
  shows "rt_inv s'"
proof (cases "list_all (\<lambda>f. case filter_endBlock f of None \<Rightarrow> False
                                | Some e \<Rightarrow> e < finalizedBlockNumber s) (logFilters cfg)")
  case True
  with st inv show ?thesis by (simp add: start_def)
next
  case False
  then obtain fb where fb: "rpc_block_by_number env (finalizedBlockNumber s) = Some fb"
    and s': "s' = s\<lparr>blocks := [rpcBlockToLightBlock fb], queue := queue_start (queue s), polling := True\<rparr>"
    using st nb by (auto simp: start_def split: if_splits option.splits)
  have "number fb = finalizedBlockNumber s" using hon fb by simp
  then show ?thesis
    using inv s' by (simp add: rt_inv_def chain_ok_def rpcBlockToLightBlock_def queue_start_def prio_ok_def)
qed

lemma setup_inv:
  assumes su: "setup_service env cfg (new_service st) = Inr (r, s1)"
    and wf: "table_wf (intervals st)"
    and ends: "\<forall>r \<in> set (intervals st). endBlock r \<le> finalizedBlockNumber s1"
  shows "rt_inv s1 \<and> blocks s1 = []"
proof -
  obtain latest where "getLatestBlock env = Inr latest"
    and s1: "s1 = (new_service st)\<lparr>finalizedBlockNumber := number latest - finalityBlockCount cfg,
      queue := add_block_task (queue (new_service st)) latest\<rparr>"
    using su by (auto simp: setup_service_def Let_def split: sum.splits)
  then show ?thesis
    using wf ends by (simp add: rt_inv_def new_service_def prio_ok_def add_block_task_def addTask_def)
qed

lemma reachable_inv:
  assumes "reachable cfg s" "0 < finalityBlockCount cfg"
  shows "rt_inv s"
  using assms
proof (induction rule: reachable.induct)
  case (init env st r s1 env' s2)
  from setup_inv[OF init(1,4,5)] have "rt_inv s1" "blocks s1 = []" by simp_all
  from start_inv[OF this init(3,2)] show ?case .
next
  case (step s s')
  from step have "rt_inv s" by simp
  from rt_step_inv[OF step(2) this step(4)] show ?case by simp
qed

lemma advance_finality_events:
  "advance_finality cfg s = (s', e) \<Longrightarrow> ErrorEvent x \<in> set (events s') \<Longrightarrow> ErrorEvent x \<in> set (events s)"
  by (auto simp: advance_finality_def Let_def split: option.splits sum.splits)

lemma accept_head_events:
  "accept_head cfg s b n = (s', e) \<Longrightarrow> ErrorEvent x \<in> set (events s') \<Longrightarrow> ErrorEvent x \<in> set (events s)"
  by (auto simp: accept_head_def Let_def split: if_splits dest: advance_finality_events)

lemma handle_new_head_events:
  "handle_new_head env cfg s b = (s', e) \<Longrightarrow> ErrorEvent x \<in> set (events s') \<Longrightarrow> ErrorEvent x \<in> set (events s)"
  by (auto simp: handle_new_head_def Let_def split: if_splits option.splits dest!: accept_head_events)

lemma handle_reorg_events:
  "handle_reorg env s b = Some (s', e) \<Longrightarrow> ErrorEvent x \<in> set (events s') \<Longrightarrow> ErrorEvent x \<in> set (events s)"
proof -
  assume h: "handle_reorg env s b = Some (s', e)" and x: "ErrorEvent x \<in> set (events s')"
  then obtain r where r: "reorg_walk env (finalizedBlockNumber s) (blocks s) [b] (rpcBlockToLightBlock b) 0 = Some r"
    by (auto simp: handle_reorg_def)
  show ?thesis
    using h x r by (cases r) (auto simp: handle_reorg_def addNewLatestBlock_def getLatestBlock_def Let_def
                                   split: option.splits)
qed

lemma blockTaskWorker_events:
  "blockTaskWorker env cfg s b = Some (s', e) \<Longrightarrow> ErrorEvent x \<in> set (events s') \<Longrightarrow> ErrorEvent x \<in> set (events s)"
  by (auto simp: blockTaskWorker_def handle_gap_def Let_def split: if_splits sum.splits
           dest: handle_new_head_events handle_reorg_events)

lemma run_task_errors:
  assumes inv: "rt_inv s" and ne: "blocks s \<noteq> []" and c: "0 < finalityBlockCount cfg"
    and r: "run_task env cfg s b = Some s'" and x: "ErrorEvent x \<in> set (events s')"
  shows "rpc_error x \<or> ErrorEvent x \<in> set (events s)"
proof -
  from r obtain s1 e where w: "blockTaskWorker env cfg s b = Some (s1, e)"
    and s': "s' = (case e of None \<Rightarrow> s1 | Some y \<Rightarrow> onError s1 y)"
    by (auto simp: run_task_def)
  have "\<forall>y. e = Some y \<longrightarrow> rpc_error y"
    using blockTaskWorker_ok[OF inv c w] ne by auto
  moreover have "ErrorEvent x \<in> set (events s1) \<Longrightarrow> ErrorEvent x \<in> set (events s)"
    using blockTaskWorker_events[OF w] by simp
  ultimately show ?thesis using s' x by (cases e) (auto simp: onError_def)
qed

lemma setup_start_events:
  "setup_service env cfg s = Inr (r, s1) \<Longrightarrow> events s1 = events s"
  "start env cfg s = Inr s' \<Longrightarrow> events s' = events s"
  "addNewLatestBlock env s = Inr s' \<Longrightarrow> events s' = events s"
  by (auto simp: setup_service_def start_def addNewLatestBlock_def Let_def split: sum.splits if_splits option.splits)

lemma reorg_walk_terminates:
  assumes env: "rpc_parents_descend env"
  shows "(\<forall>p. rpc_block_by_hash env (parentHash cur) = Some p \<longrightarrow> number p < number cur) \<Longrightarrow>
         \<exists>r. reorg_walk env fin chain canon cur d = Some r"
proof (induction "number cur" arbitrary: cur canon d rule: less_induct)
  case less
  show ?case
  proof (cases "fin < number cur")
    case False
    then show ?thesis by (simp add: reorg_walk_unfold)
  next
    case lt: True
    show ?thesis
    proof (cases "find (\<lambda>b. hash b = parentHash cur) chain")
      case (Some a)
      with lt show ?thesis by (simp add: reorg_walk_unfold)
    next
      case nf: None
      show ?thesis
      proof (cases "rpc_block_by_hash env (parentHash cur)")
        case None
        with lt nf show ?thesis by (simp add: reorg_walk_unfold)
      next
        case (Some p)
        have "number (rpcBlockToLightBlock p) < number cur"
          using less.prems Some by (simp add: rpcBlockToLightBlock_def)
        moreover have "\<forall>q. rpc_block_by_hash env (parentHash (rpcBlockToLightBlock p)) = Some q
                        \<longrightarrow> number q < number (rpcBlockToLightBlock p)"
          using env Some by (auto simp: rpc_parents_descend_def rpcBlockToLightBlock_def)
        ultimately obtain r where "reorg_walk env fin chain (p # canon) (rpcBlockToLightBlock p) (Suc d) = Some r"
          using less.hyps by blast
        with lt nf Some show ?thesis by (simp add: reorg_walk_unfold)
      qed
    qed
  qed
qed

lemma accept_head_tables:
  "logs_table (store (fst (accept_head cfg s b n))) = logs_table (store s)
   \<and> blocks_table (store (fst (accept_head cfg s b n))) = blocks_table (store s)"
  by (auto simp: accept_head_def advance_finality_def Let_def split: option.splits sum.splits)

lemma accept_head_finality:
  assumes ch: "chain_ok s" and nb: "number b = Suc (number (last (blocks s)))"
    and pb: "parentHash b = hash (last (blocks s))"
    and big: "finalizedBlockNumber s + 2 * finalityBlockCount cfg < number b"
  defines "c \<equiv> finalityBlockCount cfg" and "f \<equiv> finalizedBlockNumber s"
  shows "c < length (blocks s) \<and> snd (accept_head cfg s b n) = None \<and> finalizedBlockNumber (fst (accept_head cfg s b n)) = f + c
    \<and> blocks (fst (accept_head cfg s b n)) = drop c (blocks s @ [rpcBlockToLightBlock b])
    \<and> insertLogFilterCachedRanges (intervals (store s)) (map filter_key (logFilters cfg))
          (Suc f) (f + c) (timestamp (blocks s ! c)) = Inr (intervals (store (fst (accept_head cfg s b n))))
    \<and> events (fst (accept_head cfg s b n)) = events s @ [RealtimeCheckpoint (timestamp b), FinalityCheckpoint (timestamp (blocks s ! c))]"
proof -
  let ?s1 = "s\<lparr>events := events s @ [RealtimeCheckpoint (timestamp b)],
                blocks := blocks s @ [rpcBlockToLightBlock b], stats := (stats s)(number b \<mapsto> n)\<rparr>"
  have ne: "blocks s \<noteq> []" and lk: "linked (blocks s)" and hd: "number (hd (blocks s)) = f"
    using ch by (simp_all add: chain_ok_def f_def)
  have ch1: "chain_ok ?s1"
    using ch nb pb ne by (simp add: chain_ok_def linked_append rpcBlockToLightBlock_def)
  have "number (last (blocks s)) = f + (length (blocks s) - 1)" using linked_last[OF lk ne] hd by simp
  then have clt: "c < length (blocks s)" using big nb ne by (simp add: c_def f_def)
  have big1: "finalizedBlockNumber ?s1 + 2 * finalityBlockCount cfg < number (last (blocks ?s1))"
    using big by (simp add: rpcBlockToLightBlock_def)
  have nth: "(blocks s @ [rpcBlockToLightBlock b]) ! c = blocks s ! c" using clt by (simp add: nth_append)
  obtain tbl where ins: "insertLogFilterCachedRanges (intervals (store ?s1)) (map filter_key (logFilters cfg))
                  (Suc (finalizedBlockNumber ?s1)) (finalizedBlockNumber ?s1 + finalityBlockCount cfg)
                  (timestamp (blocks ?s1 ! finalityBlockCount cfg)) = Inr tbl"
    and adv: "advance_finality cfg ?s1 =
            (?s1\<lparr>blocks := drop (finalityBlockCount cfg) (blocks ?s1),
               stats := (\<lambda>k. if k < finalizedBlockNumber ?s1 + finalityBlockCount cfg then None else stats ?s1 k),
               store := (store ?s1)\<lparr>intervals := tbl\<rparr>,
               finalizedBlockNumber := finalizedBlockNumber ?s1 + finalityBlockCount cfg,
               events := events ?s1 @ [FinalityCheckpoint (timestamp (blocks ?s1 ! finalityBlockCount cfg))]\<rparr>, None)"
    using advance_finality_result[OF ch1 big1] by blast
  have "accept_head cfg s b n = advance_finality cfg ?s1" using big by (simp add: accept_head_def Let_def)
  then show ?thesis using adv ins clt nth by (simp add: c_def f_def)
qed

end
