(* ===== verification/Realtime_Properties.thy ===== *)
theory Realtime_Properties
  imports Realtime_Invariant
begin

text \<open>
  The properties of the realtime sync service (\<open>realtime-sync/service.ts\<close>)
  that the spec lists in sections 4.4, 5 and 8, each stated over the
  definitions of \<open>Realtime\<close> and proved from the lemmas of
  \<open>Realtime_Invariant\<close>; the concrete runs are the spec's scenarios, and the
  witnesses instantiate the general statements on them.
\<close>

section \<open>Concrete chains, endpoints and states\<close>

text \<open>
  Block \<open>n\<close> of the local chain has hash \<open>h\<^sup>n\<close> (the letter repeated \<open>n\<close> times)
  and parent hash \<open>h\<^sup>n\<^sup>-\<^sup>1\<close>, timestamp \<open>10 n\<close>; a competing fork uses the letter \<open>f\<close>.
\<close>

definition chain_block :: "nat \<Rightarrow> block_with_transactions" where
  "chain_block n = sample_block (replicate n CHR ''h'') (replicate (n - 1) CHR ''h'') n (10 * n) 0 []"

definition fork_block :: "nat \<Rightarrow> block_with_transactions" where
  "fork_block n = sample_block (replicate n CHR ''f'') (replicate (n - 1) CHR ''f'') n (10 * n + 1) 0 []"

definition chain_upto :: "nat \<Rightarrow> nat \<Rightarrow> light_block list" where
  "chain_upto a b = map (\<lambda>n. rpcBlockToLightBlock (chain_block n)) [a..<b]"

definition filter_A :: log_filter where
  "filter_A = \<lparr>filter_key = ''k'', filter_address = ''A'', filter_topics = [], filter_endBlock = None\<rparr>"

definition cfg_c :: "nat \<Rightarrow> rt_config" where
  "cfg_c c = \<lparr>logFilters = [filter_A], finalityBlockCount = c, chainId = 1, bloomMask = (\<lambda>_. 0)\<rparr>"

definition env_logs :: rpc where
  "env_logs = \<lparr>rpc_latest = None, rpc_block_by_number = (\<lambda>_. None), rpc_block_by_hash = (\<lambda>_. None),
               rpc_logs = (\<lambda>_. Some [])\<rparr>"

definition state_at :: "nat \<Rightarrow> light_block list \<Rightarrow> rt_state" where
  "state_at f bs = \<lparr>finalizedBlockNumber = f, blocks = bs, queue = \<lparr>q_tasks = [], q_started = True\<rparr>,
      store = empty_store, stats = Map.empty, polling = True, events = []\<rparr>"

text \<open>A run: \<open>setup\<close> at latest block 5 with \<open>finalityBlockCount = 2\<close>, \<open>start\<close>, then the
  task of block 5 fails because block 4 cannot be fetched.\<close>

definition env_start :: rpc where
  "env_start = \<lparr>rpc_latest = Some (chain_block 5),
                rpc_block_by_number = (\<lambda>n. if n = 3 then Some (chain_block 3) else None),
                rpc_block_by_hash = (\<lambda>_. None), rpc_logs = (\<lambda>_. Some [])\<rparr>"

definition s_started :: rt_state where
  "s_started = \<lparr>finalizedBlockNumber = 3, blocks = [rpcBlockToLightBlock (chain_block 3)],
      queue = \<lparr>q_tasks = [(block_priority (chain_block 5), chain_block 5)], q_started = True\<rparr>,
      store = empty_store, stats = Map.empty, polling = True, events = []\<rparr>"

definition s_failed :: rt_state where
  "s_failed = s_started\<lparr>queue := \<lparr>q_tasks = [], q_started = True\<rparr>,
                         events := [ErrorEvent (FailedToFetchBlockNumber 4)]\<rparr>"

text \<open>An endpoint serving block 4 by hash, and one serving a block that is its own parent.\<close>

definition env_parent4 :: rpc where
  "env_parent4 = env_logs\<lparr>rpc_block_by_hash := (\<lambda>h. if h = replicate 4 CHR ''h'' then Some (chain_block 4) else None)\<rparr>"

definition cyclic_block :: block_with_transactions where
  "cyclic_block = sample_block ''c'' ''c'' 7 70 0 []"

definition env_cycle :: rpc where
  "env_cycle = env_logs\<lparr>rpc_block_by_hash := (\<lambda>_. Some cyclic_block)\<rparr>"

text \<open>Scenario 1 (happy extend): head block 101 with a log of the filter's
  address and a log of another address.\<close>

definition head_log :: log where
  "head_log = sample_log ''l1'' ''A'' None (replicate 101 CHR ''h'') 101 ''t1''"

definition other_log :: log where
  "other_log = sample_log ''l2'' ''B'' None (replicate 101 CHR ''h'') 101 ''t2''"

definition head_block :: block_with_transactions where
  "head_block = sample_block (replicate 101 CHR ''h'') (replicate 100 CHR ''h'') 101 1010 0
     [sample_transaction ''t1'' (replicate 101 CHR ''h'') 101, sample_transaction ''t2'' (replicate 101 CHR ''h'') 101]"

definition env_head :: "log list \<Rightarrow> rpc" where
  "env_head ls = env_logs\<lparr>rpc_logs := (\<lambda>_. Some ls)\<rparr>"

text \<open>Scenario 3 (shallow reorg): block 101 of a fork whose parent, block 100 of
  the fork, has block 99 of the local chain as parent.\<close>

definition reorg_parent :: block_with_transactions where
  "reorg_parent = sample_block (replicate 100 CHR ''f'') (replicate 99 CHR ''h'') 100 1001 0 []"

definition reorg_head :: block_with_transactions where
  "reorg_head = sample_block (replicate 101 CHR ''f'') (replicate 100 CHR ''f'') 101 1011 0 []"

definition env_reorg :: "block_with_transactions option \<Rightarrow> rpc" where
  "env_reorg latest = env_logs\<lparr>rpc_latest := latest,
     rpc_block_by_hash := (\<lambda>h. if h = replicate 100 CHR ''f'' then Some reorg_parent else None)\<rparr>"

text \<open>Scenario 2 (gap): an endpoint serving every block by number, and one
  missing block 102.\<close>

definition env_numbers :: "nat set \<Rightarrow> rpc" where
  "env_numbers missing = env_logs\<lparr>rpc_block_by_number :=
     (\<lambda>n. if n \<in> missing then None else Some (chain_block n))\<rparr>"

text \<open>Scenario 5 (deep reorg): a fork whose blocks all have hashes \<open>f\<^sup>n\<close>.\<close>

definition env_fork :: rpc where
  "env_fork = env_logs\<lparr>rpc_block_by_hash :=
     (\<lambda>h. if h = replicate (length h) CHR ''f'' then Some (fork_block (length h)) else None)\<rparr>"

text \<open>A configuration whose only filter ends at block \<open>e\<close>.\<close>

definition cfg_end :: "nat \<Rightarrow> rt_config" where
  "cfg_end e = (cfg_c 2)\<lparr>logFilters := [filter_A\<lparr>filter_endBlock := Some e\<rparr>]\<rparr>"

section \<open>Runs used by the witnesses\<close>

lemma reachable_started: "reachable (cfg_c 2) s_started"
proof (rule reachable.init[where env = env_start and env' = env_start and st = empty_store])
  show "setup_service env_start (cfg_c 2) (new_service empty_store) =
          Inr ((5, 3), (new_service empty_store)\<lparr>finalizedBlockNumber := 3,
                 queue := add_block_task (queue (new_service empty_store)) (chain_block 5)\<rparr>)"
    by (simp add: setup_service_def getLatestBlock_def env_start_def cfg_c_def chain_block_def sample_block_def)
  show "start env_start (cfg_c 2) ((new_service empty_store)\<lparr>finalizedBlockNumber := 3,
                 queue := add_block_task (queue (new_service empty_store)) (chain_block 5)\<rparr>) = Inr s_started"
    by (simp add: start_def cfg_c_def filter_A_def queue_size_def add_block_task_def addTask_def
                  new_service_def env_start_def s_started_def queue_start_def)
qed (simp_all add: env_start_def chain_block_def sample_block_def empty_store_def table_wf_def)

lemma step_started_failed: "rt_step (cfg_c 2) s_started s_failed"
proof (rule rt_step.work[where env = env_start])
  show "pop (queue s_started) = Some (chain_block 5, \<lparr>q_tasks = [], q_started = True\<rparr>)"
    by (simp add: pop_def s_started_def max_priority_def)
  show "run_task env_start (cfg_c 2) (s_started\<lparr>queue := \<lparr>q_tasks = [], q_started = True\<rparr>\<rparr>) (chain_block 5) =
        Some s_failed"
    by (simp add: run_task_def blockTaskWorker_def handle_gap_def fetch_block_number_def onError_def
                  s_started_def s_failed_def env_start_def chain_block_def sample_block_def rpcBlockToLightBlock_def)
qed (simp add: s_started_def)

lemma reachable_failed: "reachable (cfg_c 2) s_failed"
  using reachable.step[OF reachable_started step_started_failed] .

section \<open>Invariants of every run\<close>

text \<open>
  C1. In every reachable state of a service with a positive
  \<open>finalityBlockCount\<close>, the local chain starts at the finalized block, is
  strictly ascending in number and linked by parent hash; the cached
  intervals of every contract are sorted, disjoint and non-adjacent; and no
  cached interval ends above the finalized number (spec section 8).
\<close>

theorem reachable_state_invariant:
  assumes "reachable cfg s" "0 < finalityBlockCount cfg"
  shows "(blocks s \<noteq> [] \<longrightarrow> number (hd (blocks s)) = finalizedBlockNumber s
            \<and> sorted_wrt (\<lambda>a b. number a < number b) (blocks s)
            \<and> (\<forall>i. Suc i < length (blocks s) \<longrightarrow> parentHash (blocks s ! Suc i) = hash (blocks s ! i)))
         \<and> (\<forall>c. canonical (ranges_of (intervals (store s)) c))
         \<and> (\<forall>r \<in> set (intervals (store s)). endBlock r \<le> finalizedBlockNumber s)"
proof -
  have inv: "rt_inv s" using reachable_inv[OF assms] .
  then have "blocks s \<noteq> [] \<longrightarrow> number (hd (blocks s)) = finalizedBlockNumber s \<and> linked (blocks s)"
    by (simp add: rt_inv_def chain_ok_def)
  with inv show ?thesis
    by (auto simp: rt_inv_def table_wf_iff intro: linked_sorted linked_parent_nth)
qed

theorem reachable_state_invariant_witness:
  "reachable (cfg_c 2) s_failed \<and> 0 < finalityBlockCount (cfg_c 2) \<and>
   number (hd (blocks s_failed)) = finalizedBlockNumber s_failed \<and>
   sorted_wrt (\<lambda>a b. number a < number b) (blocks s_failed)"
proof -
  have c: "0 < finalityBlockCount (cfg_c 2)" by (simp add: cfg_c_def)
  have "blocks s_failed \<noteq> []" by (simp add: s_failed_def s_started_def)
  then show ?thesis using reachable_state_invariant[OF reachable_failed c] reachable_failed c by simp
qed

text \<open>
  C2. The finalized block number never decreases: every step of the
  service (a poll, a worker task or \<open>kill\<close>) from a reachable state leaves it
  equal or larger.
\<close>

theorem finalized_monotone:
  assumes "reachable cfg s" "rt_step cfg s s'" "0 < finalityBlockCount cfg"
  shows "finalizedBlockNumber s \<le> finalizedBlockNumber s'"
  using rt_step_inv[OF assms(2) reachable_inv[OF assms(1,3)] assms(3)] by simp

theorem finalized_monotone_witness:
  "reachable (cfg_c 2) s_started \<and> rt_step (cfg_c 2) s_started s_failed \<and> 0 < finalityBlockCount (cfg_c 2)
   \<and> finalizedBlockNumber s_started \<le> finalizedBlockNumber s_failed"
  using finalized_monotone[OF reachable_started step_started_failed] reachable_started step_started_failed
  by (simp add: cfg_c_def)

text \<open>
  C3. Every error event a run emits comes from the endpoint (a failed or
  null RPC answer): the invariant-violation errors of the code (a missing
  finalized block during finality advance, an old interval not found, the
  head of an empty local chain) never occur in a reachable state.
\<close>

theorem worker_errors_from_rpc:
  assumes "reachable cfg s" "0 < finalityBlockCount cfg"
  shows "ErrorEvent x \<in> set (events s) \<Longrightarrow> rpc_error x"
  using assms
proof (induction rule: reachable.induct)
  case (init env st r s1 env' s2)
  have "events s2 = []"
    using setup_start_events(1)[OF init(1)] setup_start_events(2)[OF init(2)] by (simp add: new_service_def)
  with init.prems show ?case by simp
next
  case (step s s')
  from step.hyps(2) step.prems step.IH show ?case
  proof (cases rule: rt_step.cases)
    case (poll env)
    then show ?thesis using step setup_start_events(3)[OF poll(2)] by simp
  next
    case (work b q env)
    have inv: "rt_inv s" using reachable_inv[OF step.hyps(1) step.prems(2)] .
    then have "rt_inv (s\<lparr>queue := q\<rparr>)" "blocks (s\<lparr>queue := q\<rparr>) \<noteq> []"
      using pop_prio_ok[OF work(2)] work(1) by (simp_all add: rt_inv_def chain_ok_def)
    from run_task_errors[OF this step.prems(2) work(3) step.prems(1)] step.IH step.prems(2)
    show ?thesis by auto
  next
    case (work_killed b q env)
    have inv: "rt_inv s" using reachable_inv[OF step.hyps(1) step.prems(2)] .
    then have "rt_inv (s\<lparr>queue := q\<rparr>)" "blocks (s\<lparr>queue := q\<rparr>) \<noteq> []"
      using pop_prio_ok[OF work_killed(2)] work_killed(1) by (simp_all add: rt_inv_def chain_ok_def)
    then have "rt_inv (kill (s\<lparr>queue := q\<rparr>))" "blocks (kill (s\<lparr>queue := q\<rparr>)) \<noteq> []"
      by (simp_all add: kill_inv)
    from run_task_errors[OF this step.prems(2) work_killed(3) step.prems(1)] step.IH step.prems(2)
    show ?thesis by (auto simp: kill_inv)
  next
    case stop
    then show ?thesis using step by (simp add: kill_def)
  qed
qed

theorem worker_errors_from_rpc_witness:
  "reachable (cfg_c 2) s_failed \<and> 0 < finalityBlockCount (cfg_c 2) \<and>
   ErrorEvent (FailedToFetchBlockNumber 4) \<in> set (events s_failed) \<and> rpc_error (FailedToFetchBlockNumber 4)"
proof -
  have c: "0 < finalityBlockCount (cfg_c 2)" by (simp add: cfg_c_def)
  have e: "ErrorEvent (FailedToFetchBlockNumber 4) \<in> set (events s_failed)" by (simp add: s_failed_def)
  show ?thesis using worker_errors_from_rpc[OF reachable_failed c e] reachable_failed c e by simp
qed

section \<open>Termination of a worker task\<close>

text \<open>
  C12. A worker task returns whenever the endpoint serves parents with
  smaller numbers (as a real chain does) and the task's block is above its
  parent: the reorg walk of case 4 then reaches the finalized number, a
  common ancestor or a failed fetch. The result is a value, not only a
  partial correctness statement.
\<close>

theorem blockTaskWorker_terminates:
  assumes "rpc_parents_descend env"
    and "\<forall>p. rpc_block_by_hash env (parentHash b) = Some p \<longrightarrow> number p < number b"
  shows "\<exists>r. blockTaskWorker env cfg s b = Some r"
proof -
  have "\<forall>p. rpc_block_by_hash env (parentHash (rpcBlockToLightBlock b)) = Some p
           \<longrightarrow> number p < number (rpcBlockToLightBlock b)"
    using assms(2) by (simp add: rpcBlockToLightBlock_def)
  from reorg_walk_terminates[OF assms(1) this] obtain r where
    "reorg_walk env (finalizedBlockNumber s) (blocks s) [b] (rpcBlockToLightBlock b) 0 = Some r"
    by blast
  then show ?thesis by (auto simp: blockTaskWorker_def handle_reorg_def Let_def)
qed

theorem blockTaskWorker_terminates_witness:
  "rpc_block_by_hash env_parent4 (parentHash (chain_block 5)) = Some (chain_block 4) \<and>
   (\<exists>r. blockTaskWorker env_parent4 (cfg_c 2) (state_at 3 (chain_upto 3 4)) (chain_block 5) = Some r)"
proof -
  have d: "rpc_parents_descend env_parent4"
    by (auto simp: rpc_parents_descend_def env_parent4_def env_logs_def chain_block_def sample_block_def)
  have p: "\<forall>p. rpc_block_by_hash env_parent4 (parentHash (chain_block 5)) = Some p \<longrightarrow> number p < number (chain_block 5)"
    by (simp add: env_parent4_def env_logs_def chain_block_def sample_block_def)
  have "rpc_block_by_hash env_parent4 (parentHash (chain_block 5)) = Some (chain_block 4)"
    by (simp add: env_parent4_def env_logs_def chain_block_def sample_block_def)
  then show ?thesis using blockTaskWorker_terminates[OF d p] by blast
qed

text \<open>
  C24. The reorg walk does not return when the endpoint serves, above the
  finalized number, a block that is its own parent and is not on the local
  chain: the \<open>while\<close> loop of case 4 fetches it forever, and the single
  worker of the queue never takes another task.
\<close>

theorem reorg_walk_diverges:
  assumes p: "rpc_block_by_hash env h = Some p" "parentHash p = h" "fin < number p"
    and nf: "find (\<lambda>b. hash b = h) chain = None"
    and cur: "parentHash cur = h" "fin < number cur"
  shows "reorg_walk env fin chain canon cur d = None"
proof (rule ccontr)
  assume "reorg_walk env fin chain canon cur d \<noteq> None"
  then obtain r where r: "reorg_walk env fin chain canon cur d = Some r" by auto
  have "env = env \<longrightarrow> fin = fin \<longrightarrow> chain = chain \<longrightarrow> parentHash cur = h \<longrightarrow> fin < number cur \<longrightarrow> False"
  proof (rule reorg_walk.raw_induct
      [where P = "\<lambda>env' fin' chain' canon cur d r. env' = env \<longrightarrow> fin' = fin \<longrightarrow> chain' = chain
                    \<longrightarrow> parentHash cur = h \<longrightarrow> fin < number cur \<longrightarrow> False", OF _ r])
    fix f :: "rpc \<Rightarrow> block_number \<Rightarrow> light_block list \<Rightarrow> block_with_transactions list \<Rightarrow> light_block
              \<Rightarrow> nat \<Rightarrow> reorg_outcome option"
    fix env' fin' chain' canon d r and cur :: light_block
    assume IH: "\<And>env' fin' chain' canon cur d r. f env' fin' chain' canon cur d = Some r \<Longrightarrow>
        env' = env \<longrightarrow> fin' = fin \<longrightarrow> chain' = chain \<longrightarrow> parentHash cur = h \<longrightarrow> fin < number cur \<longrightarrow> False"
      and eq: "(if fin' < number cur then
          (case find (\<lambda>b. hash b = parentHash cur) chain' of
             Some a \<Rightarrow> Some (CommonAncestor a canon d)
           | None \<Rightarrow>
               (case rpc_block_by_hash env' (parentHash cur) of
                  None \<Rightarrow> Some (ParentNotFetched (parentHash cur))
                | Some p \<Rightarrow> f env' fin' chain' (p # canon) (rpcBlockToLightBlock p) (Suc d)))
        else Some (NoCommonAncestor d)) = Some r"
    show "env' = env \<longrightarrow> fin' = fin \<longrightarrow> chain' = chain \<longrightarrow> parentHash cur = h \<longrightarrow> fin < number cur \<longrightarrow> False"
    proof (intro impI)
      assume "env' = env" "fin' = fin" "chain' = chain" "parentHash cur = h" "fin < number cur"
      then have "f env fin chain (p # canon) (rpcBlockToLightBlock p) (Suc d) = Some r"
        using eq p nf by simp
      from IH[OF this] p show False by (simp add: rpcBlockToLightBlock_def)
    qed
  qed
  then show False using cur by simp
qed

theorem reorg_walk_diverges_witness:
  "reorg_walk env_cycle 0 [] [] (rpcBlockToLightBlock (sample_block ''d'' ''c'' 8 80 0 [])) 0 = None"
proof -
  have "rpc_block_by_hash env_cycle ''c'' = Some cyclic_block" "parentHash cyclic_block = ''c''"
       "0 < number cyclic_block" "find (\<lambda>b. hash b = ''c'') ([] :: light_block list) = None"
       "parentHash (rpcBlockToLightBlock (sample_block ''d'' ''c'' 8 80 0 [])) = ''c''"
       "0 < number (rpcBlockToLightBlock (sample_block ''d'' ''c'' 8 80 0 []))"
    by (simp_all add: env_cycle_def env_logs_def cyclic_block_def sample_block_def rpcBlockToLightBlock_def)
  from reorg_walk_diverges[OF this] show ?thesis .
qed

section \<open>Order of the queue\<close>

text \<open>
  C13. The worker is served the queued block of the lowest number: with the
  priorities \<open>MAX_SAFE_INTEGER - number\<close> that every producer assigns, a pop
  returns a block whose number is at most that of every remaining task, and
  strictly below those queued before it (first in, first out among equal
  numbers); the other tasks stay in order.
\<close>

theorem queue_serves_lowest_first:
  assumes "prio_ok q" "pop q = Some (b, q')"
  shows "\<exists>pre post. q_tasks q = pre @ (block_priority b, b) # post \<and> q_tasks q' = pre @ post
           \<and> (\<forall>(p, x) \<in> set pre. number b < number x) \<and> (\<forall>(p, x) \<in> set post. number b \<le> number x)"
proof -
  obtain pre post p where d: "q_tasks q = pre @ (p, b) # post" "q_tasks q' = pre @ post"
    and lt: "\<forall>x \<in> set pre. fst x < p" and le: "\<forall>x \<in> set (pre @ post). fst x \<le> p"
    using pop_Some[OF assms(2)] by blast
  have pr: "\<forall>(p', x) \<in> set (q_tasks q). p' = block_priority x" using assms(1) by (simp add: prio_ok_def)
  then have p: "p = block_priority b" using d(1) by auto
  have "\<forall>(p', x) \<in> set pre. number b < number x"
  proof (clarify)
    fix p' x assume x: "(p', x) \<in> set pre"
    then have "p' < p" "p' = block_priority x" using lt pr d(1) by auto
    then show "number b < number x" using p by (simp add: block_priority_def)
  qed
  moreover have "\<forall>(p', x) \<in> set post. number b \<le> number x"
  proof (clarify)
    fix p' x assume x: "(p', x) \<in> set post"
    then have "p' \<le> p" using le[rule_format, of "(p', x)"] by simp
    moreover have "p' = block_priority x" using x pr d(1) by auto
    ultimately have "p' \<le> p" "p' = block_priority x" by simp_all
    then show "number b \<le> number x" using p by (simp add: block_priority_def)
  qed
  ultimately show ?thesis using d p by blast
qed

theorem queue_serves_lowest_first_witness:
  "\<exists>pre post. map (\<lambda>n. (block_priority (chain_block n), chain_block n)) [5, 3, 4]
                  = pre @ (block_priority (chain_block 3), chain_block 3) # post
              \<and> map (\<lambda>n. (block_priority (chain_block n), chain_block n)) [5, 4] = pre @ post"
proof -
  have prio: "prio_ok \<lparr>q_tasks = map (\<lambda>n. (block_priority (chain_block n), chain_block n)) [5, 3, 4], q_started = True\<rparr>"
    by (simp add: prio_ok_def)
  have pop: "pop \<lparr>q_tasks = map (\<lambda>n. (block_priority (chain_block n), chain_block n)) [5, 3, 4], q_started = True\<rparr>
     = Some (chain_block 3, \<lparr>q_tasks = map (\<lambda>n. (block_priority (chain_block n), chain_block n)) [5, 4],
                             q_started = True\<rparr>)"
    by (simp add: pop_def max_priority_def block_priority_def chain_block_def sample_block_def MAX_SAFE_INTEGER_def)
  from queue_serves_lowest_first[OF prio pop] show ?thesis by (simp only: task_queue.select_convs) blast
qed

section \<open>The cases of the block task worker\<close>

text \<open>
  C7. A new head never loses a matched log: when the header's logs bloom is
  the bloom of the logs the endpoint serves for the block, every log that
  \<open>filterLogs\<close> keeps is in the logs table after the block is handled (the
  bloom pre-screen has no false negatives, the matched logs go to
  \<open>insertRealtimeBlock\<close>, and a finality advance does not touch the logs).
\<close>

theorem new_head_stores_matched_logs:
  assumes bloom: "logsBloom b = logs_bloom (bloomMask cfg) ls"
    and logs: "rpc_logs env (hash b) = Some ls"
    and res: "handle_new_head env cfg s b = (s', e)"
    and l: "l \<in> set (filterLogs ls (logFilters cfg))"
  shows "\<exists>r \<in> set (logs_table (store s')). logId r = logId l"
proof -
  let ?m = "filterLogs ls (logFilters cfg)"
  let ?txs = "filter (\<lambda>t. tx_hash t \<in> set (map transactionHash ?m)) (transactions b)"
  have ne: "?m \<noteq> []" using l by auto
  have "isMatchedLogInBloomFilter (bloomMask cfg) (logsBloom b) (logFilters cfg)"
    using bloom_prescreen_sound[OF ne] bloom by simp
  then have "s' = fst (accept_head cfg (s\<lparr>store := insertRealtimeBlock (store s) b ?txs ?m\<rparr>) b (length ?m))"
    using res logs ne by (simp add: handle_new_head_def Let_def)
  then have "logs_table (store s') = logs_table (insertRealtimeBlock (store s) b ?txs ?m)"
    by (simp add: accept_head_tables)
  then show ?thesis using insertRealtimeBlock_logIds[OF l] by simp
qed

theorem new_head_stores_matched_logs_witness:
  "\<exists>r. r \<in> set (logs_table (store (fst (handle_new_head (env_head [head_log, other_log]) (cfg_c 10)
                  (state_at 90 (chain_upto 90 101)) head_block)))) \<and> logId r = ''l1''"
proof -
  have bloom: "logsBloom head_block = logs_bloom (bloomMask (cfg_c 10)) [head_log, other_log]"
    by (simp add: head_block_def sample_block_def cfg_c_def logs_bloom_def log_bloom_def log_topics_def
                  head_log_def other_log_def sample_log_def)
  have logs: "rpc_logs (env_head [head_log, other_log]) (hash head_block) = Some [head_log, other_log]"
    by (simp add: env_head_def)
  have l: "head_log \<in> set (filterLogs [head_log, other_log] (logFilters (cfg_c 10)))"
    by (simp add: filterLogs_def cfg_c_def filter_A_def log_matches_def head_log_def other_log_def sample_log_def)
  from new_head_stores_matched_logs[OF bloom logs prod.collapse[symmetric] l]
  show ?thesis by (auto simp: head_log_def sample_log_def)
qed

text \<open>
  C20. A bloom false positive (the screen passes, no fetched log matches)
  writes nothing to the store, yet the block is appended to the local chain,
  \<open>realtimeCheckpoint\<close> is emitted and its stats record zero matched logs
  (spec section 8, boundary behaviours), when the block does not move the
  finality checkpoint.
\<close>

theorem bloom_false_positive_extends:
  assumes "isMatchedLogInBloomFilter (bloomMask cfg) (logsBloom b) (logFilters cfg)"
    and "rpc_logs env (hash b) = Some ls" and "filterLogs ls (logFilters cfg) = []"
    and "\<not> finalizedBlockNumber s + 2 * finalityBlockCount cfg < number b"
  shows "handle_new_head env cfg s b =
           (s\<lparr>events := events s @ [RealtimeCheckpoint (timestamp b)],
              blocks := blocks s @ [rpcBlockToLightBlock b], stats := (stats s)(number b \<mapsto> 0)\<rparr>, None)"
  using assms by (simp add: handle_new_head_def accept_head_def Let_def)

theorem bloom_false_positive_extends_witness:
  "handle_new_head (env_head [other_log]) (cfg_c 10) (state_at 90 (chain_upto 90 101)) head_block =
     ((state_at 90 (chain_upto 90 101))\<lparr>events := [RealtimeCheckpoint 1010],
        blocks := chain_upto 90 101 @ [rpcBlockToLightBlock head_block], stats := [101 \<mapsto> 0]\<rparr>, None)"
proof -
  have h: "isMatchedLogInBloomFilter (bloomMask (cfg_c 10)) (logsBloom head_block) (logFilters (cfg_c 10))"
    "rpc_logs (env_head [other_log]) (hash head_block) = Some [other_log]"
    "filterLogs [other_log] (logFilters (cfg_c 10)) = []"
    "\<not> finalizedBlockNumber (state_at 90 (chain_upto 90 101)) + 2 * finalityBlockCount (cfg_c 10) < number head_block"
    by (simp_all add: isMatchedLogInBloomFilter_def bloom_contains_def cfg_c_def filter_A_def env_head_def
                      filterLogs_def log_matches_def other_log_def sample_log_def state_at_def head_block_def
                      sample_block_def)
  have e: "state_at 90 (chain_upto 90 101)\<lparr>events := events (state_at 90 (chain_upto 90 101)) @ [RealtimeCheckpoint (timestamp head_block)],
              blocks := blocks (state_at 90 (chain_upto 90 101)) @ [rpcBlockToLightBlock head_block],
              stats := (stats (state_at 90 (chain_upto 90 101)))(number head_block \<mapsto> 0)\<rparr> =
           (state_at 90 (chain_upto 90 101))\<lparr>events := [RealtimeCheckpoint 1010],
              blocks := chain_upto 90 101 @ [rpcBlockToLightBlock head_block], stats := [101 \<mapsto> 0]\<rparr>"
    by (simp add: state_at_def head_block_def sample_block_def)
  show ?thesis using bloom_false_positive_extends[OF h] e by simp
qed

text \<open>
  C8. A new head that is more than twice \<open>finalityBlockCount\<close> above the
  finalized block advances finality by exactly \<open>finalityBlockCount\<close>, whether
  or not it has matched logs: the local chain keeps the blocks from the new
  finalized block on (the new head included), the range from the old
  finalized block (exclusive) to the new one is written to the cached
  intervals of every filter key with the new finalized block's timestamp,
  and \<open>finalityCheckpoint\<close> follows \<open>realtimeCheckpoint\<close>.
\<close>

theorem new_head_advances_finality:
  assumes ch: "chain_ok s" and nb: "number b = Suc (number (last (blocks s)))"
    and pb: "parentHash b = hash (last (blocks s))"
    and big: "finalizedBlockNumber s + 2 * finalityBlockCount cfg < number b"
    and logs: "rpc_logs env (hash b) = Some ls"
    and res: "handle_new_head env cfg s b = (s', e)"
  shows "e = None \<and> finalizedBlockNumber s' = finalizedBlockNumber s + finalityBlockCount cfg
    \<and> blocks s' = drop (finalityBlockCount cfg) (blocks s @ [rpcBlockToLightBlock b])
    \<and> insertLogFilterCachedRanges (intervals (store s)) (map filter_key (logFilters cfg))
          (Suc (finalizedBlockNumber s)) (finalizedBlockNumber s')
          (timestamp (blocks s ! finalityBlockCount cfg)) = Inr (intervals (store s'))
    \<and> drop (length (events s)) (events s') =
        [RealtimeCheckpoint (timestamp b), FinalityCheckpoint (timestamp (blocks s ! finalityBlockCount cfg))]"
proof -
  define m where "m = filterLogs ls (logFilters cfg)"
  define txs where "txs = filter (\<lambda>t. tx_hash t \<in> set (map transactionHash m)) (transactions b)"
  define pass where "pass = isMatchedLogInBloomFilter (bloomMask cfg) (logsBloom b) (logFilters cfg)"
  define s1 where "s1 = (if pass \<and> m \<noteq> [] then s\<lparr>store := insertRealtimeBlock (store s) b txs m\<rparr> else s)"
  define n where "n = (if pass then length m else 0)"
  have "handle_new_head env cfg s b = accept_head cfg s1 b n"
    by (simp add: handle_new_head_def logs Let_def s1_def n_def m_def txs_def pass_def)
  with res have acc: "accept_head cfg s1 b n = (s', e)" by simp
  have same: "blocks s1 = blocks s" "finalizedBlockNumber s1 = finalizedBlockNumber s" "events s1 = events s"
       "intervals (store s1) = intervals (store s)" by (simp_all add: s1_def)
  have ch1: "chain_ok s1" using ch same by (simp add: chain_ok_def)
  show ?thesis
    using accept_head_finality[OF ch1, of b cfg n] nb pb big acc same by simp
qed

theorem new_head_advances_finality_witness:
  "\<exists>s' e. handle_new_head env_logs (cfg_c 10) (state_at 100 (chain_upto 100 121)) (chain_block 121) = (s', e)
     \<and> e = None \<and> finalizedBlockNumber s' = 110
     \<and> blocks s' = drop 10 (chain_upto 100 121 @ [rpcBlockToLightBlock (chain_block 121)])"
proof -
  have h: "chain_ok (state_at 100 (chain_upto 100 121))"
    "number (chain_block 121) = Suc (number (last (blocks (state_at 100 (chain_upto 100 121)))))"
    "parentHash (chain_block 121) = hash (last (blocks (state_at 100 (chain_upto 100 121))))"
    "finalizedBlockNumber (state_at 100 (chain_upto 100 121)) + 2 * finalityBlockCount (cfg_c 10) < number (chain_block 121)"
    "rpc_logs env_logs (hash (chain_block 121)) = Some []"
    by (simp_all add: chain_ok_def state_at_def chain_upto_def chain_block_def sample_block_def
                      rpcBlockToLightBlock_def cfg_c_def env_logs_def)
  obtain s' e where res: "handle_new_head env_logs (cfg_c 10) (state_at 100 (chain_upto 100 121)) (chain_block 121) = (s', e)"
    by (cases "handle_new_head env_logs (cfg_c 10) (state_at 100 (chain_upto 100 121)) (chain_block 121)")
  have "e = None \<and> finalizedBlockNumber s' = finalizedBlockNumber (state_at 100 (chain_upto 100 121)) + finalityBlockCount (cfg_c 10)
        \<and> blocks s' = drop (finalityBlockCount (cfg_c 10)) (blocks (state_at 100 (chain_upto 100 121)) @ [rpcBlockToLightBlock (chain_block 121)])"
    using new_head_advances_finality[OF h res] by blast
  then have "e = None \<and> finalizedBlockNumber s' = 110 \<and>
             blocks s' = drop 10 (chain_upto 100 121 @ [rpcBlockToLightBlock (chain_block 121)])"
    by (simp add: state_at_def cfg_c_def)
  with res show ?thesis by blast
qed

text \<open>
  C9. Shallow reorg (case 4 with a common ancestor): the local chain is
  truncated to a prefix ending at the common ancestor, the store loses the
  realtime data above the ancestor, and the queue starts with the fetched
  canonical blocks in ascending order. This holds whatever the error \<open>e\<close>:
  when the final fetch of the latest block fails, the truncation, the
  deletion and the new queue are kept.
\<close>

theorem shallow_reorg_truncates:
  assumes ch: "chain_ok s"
    and walk: "reorg_walk env (finalizedBlockNumber s) (blocks s) [b] (rpcBlockToLightBlock b) 0
               = Some (CommonAncestor a canon d)"
    and res: "handle_reorg env s b = Some (s', e)"
  shows "blocks s' \<noteq> [] \<and> last (blocks s') = a \<and> (\<exists>rest. blocks s = blocks s' @ rest)
         \<and> store s' = deleteRealtimeData (store s) (Suc (number a))
         \<and> map snd (take (length canon) (q_tasks (queue s'))) = canon"
proof -
  have a: "a \<in> set (blocks s)" using reorg_walk_ancestor[OF walk] by blast
  have lk: "linked (blocks s)" using ch by (simp add: chain_ok_def)
  let ?k = "Suc (number a) - number (hd (blocks s))"
  have filt: "filter (\<lambda>x. number x \<le> number a) (blocks s) = take ?k (blocks s)"
    using linked_filter_le[OF lk] .
  have k: "0 < ?k" using linked_hd_le[OF lk a] by simp
  have q: "map snd (q_tasks (foldl add_block_task q0 cs)) = map snd (q_tasks q0) @ cs" for q0 cs
    by (simp add: q_tasks_foldl_add comp_def)
  let ?ts = "q_tasks (foldl add_block_task (queue_clear (queue s)) canon)"
  have qa: "map snd ?ts = canon" using q[of "queue_clear (queue s)" canon] by (simp add: queue_clear_def)
  then have len: "length ?ts = length canon" by (metis length_map)
  have tk: "map snd (take (length canon) (?ts @ ys)) = canon" for ys
    using qa len by simp
  have pre: "\<exists>rest. xs = take n xs @ rest" for xs :: "light_block list" and n
    by (metis append_take_drop_id)
  show ?thesis
    using res walk filt pre len k a linked_take_last[OF lk a] tk[of "[]"] tk
    by (auto simp: handle_reorg_def addNewLatestBlock_def getLatestBlock_def add_block_task_def addTask_def
                   split: option.splits)
qed

theorem shallow_reorg_truncates_witness:
  "\<exists>s' e. handle_reorg (env_reorg (Some reorg_head)) (state_at 97 (chain_upto 97 101)) reorg_head = Some (s', e)
     \<and> last (blocks s') = rpcBlockToLightBlock (chain_block 99)
     \<and> store s' = deleteRealtimeData empty_store 100
     \<and> map snd (take 2 (q_tasks (queue s'))) = [reorg_parent, reorg_head]"
proof -
  have ch: "chain_ok (state_at 97 (chain_upto 97 101))"
    by (simp add: chain_ok_def state_at_def chain_upto_def chain_block_def sample_block_def rpcBlockToLightBlock_def)
  have walk: "reorg_walk (env_reorg (Some reorg_head)) (finalizedBlockNumber (state_at 97 (chain_upto 97 101)))
      (blocks (state_at 97 (chain_upto 97 101))) [reorg_head] (rpcBlockToLightBlock reorg_head) 0
      = Some (CommonAncestor (rpcBlockToLightBlock (chain_block 99)) [reorg_parent, reorg_head] 1)"
    by (simp add: reorg_walk_unfold state_at_def chain_upto_def chain_block_def sample_block_def
                  rpcBlockToLightBlock_def reorg_head_def reorg_parent_def env_reorg_def env_logs_def)
  have "\<exists>x. handle_reorg (env_reorg (Some reorg_head)) (state_at 97 (chain_upto 97 101)) reorg_head = Some x"
    using walk by (simp add: handle_reorg_def)
  then obtain s' e where res: "handle_reorg (env_reorg (Some reorg_head)) (state_at 97 (chain_upto 97 101)) reorg_head = Some (s', e)"
    by auto
  have "last (blocks s') = rpcBlockToLightBlock (chain_block 99)
        \<and> store s' = deleteRealtimeData (store (state_at 97 (chain_upto 97 101))) (Suc (number (rpcBlockToLightBlock (chain_block 99))))
        \<and> map snd (take (length [reorg_parent, reorg_head]) (q_tasks (queue s'))) = [reorg_parent, reorg_head]"
    using shallow_reorg_truncates[OF ch walk res] by blast
  then show ?thesis using res
    by (simp add: state_at_def chain_block_def sample_block_def rpcBlockToLightBlock_def numeral_2_eq_2)
qed

text \<open>
  C10. Gap fill (case 3): with an endpoint that answers a by-number request
  with a block of that number, a successful gap fill queues the missing
  blocks, numbers \<open>head + 1\<close> to \<open>number - 1\<close> in ascending order, followed by
  the block itself, each with its block priority, and changes nothing else.
\<close>

theorem gap_fill_enqueues_missing:
  assumes hon: "\<forall>n x. rpc_block_by_number env n = Some x \<longrightarrow> number x = n"
    and res: "handle_gap env s h b = (s', None)"
  shows "\<exists>bs. map number bs = [Suc (number h)..<number b]
           \<and> q_tasks (queue s') = q_tasks (queue s) @ map (\<lambda>x. (block_priority x, x)) (bs @ [b])
           \<and> blocks s' = blocks s \<and> finalizedBlockNumber s' = finalizedBlockNumber s \<and> store s' = store s"
proof -
  obtain bs where mr: "map_result (fetch_block_number env) [number h + 1..<number b] = Inr bs"
    and s': "s' = s\<lparr>queue := foldl add_block_task (queue s) (bs @ [b])\<rparr>"
    using res by (auto simp: handle_gap_def split: sum.splits)
  have "list_all2 (\<lambda>n x. fetch_block_number env n = Inr x) [number h + 1..<number b] bs"
    using mr by (simp add: map_result_Inr_iff)
  then have "list_all2 (\<lambda>n x. number x = n) [number h + 1..<number b] bs"
    by (rule list_all2_mono) (auto simp: fetch_block_number_def hon split: option.splits)
  then have "map number bs = [number h + 1..<number b]"
    by (induction rule: list_all2_induct) simp_all
  moreover have "q_tasks (foldl add_block_task (queue s) (bs @ [b])) =
      q_tasks (queue s) @ map (\<lambda>x. (block_priority x, x)) (bs @ [b])" by (rule q_tasks_foldl_add)
  ultimately show ?thesis using s' by auto
qed

theorem gap_fill_enqueues_missing_witness:
  "\<exists>bs. map number bs = [101..<103]
     \<and> q_tasks (queue (fst (handle_gap (env_numbers {}) (state_at 90 (chain_upto 90 101))
                           (rpcBlockToLightBlock (chain_block 100)) (chain_block 103))))
       = map (\<lambda>x. (block_priority x, x)) (bs @ [chain_block 103])"
proof -
  have hon: "\<forall>n x. rpc_block_by_number (env_numbers {}) n = Some x \<longrightarrow> number x = n"
    by (simp add: env_numbers_def env_logs_def chain_block_def sample_block_def)
  have "snd (handle_gap (env_numbers {}) (state_at 90 (chain_upto 90 101))
           (rpcBlockToLightBlock (chain_block 100)) (chain_block 103)) = None"
    by (simp add: handle_gap_def fetch_block_number_def env_numbers_def env_logs_def chain_block_def
                  sample_block_def rpcBlockToLightBlock_def)
  then have res: "handle_gap (env_numbers {}) (state_at 90 (chain_upto 90 101))
           (rpcBlockToLightBlock (chain_block 100)) (chain_block 103) =
        (fst (handle_gap (env_numbers {}) (state_at 90 (chain_upto 90 101))
           (rpcBlockToLightBlock (chain_block 100)) (chain_block 103)), None)"
    by (metis prod.collapse)
  have n: "number (rpcBlockToLightBlock (chain_block 100)) = 100" "number (chain_block 103) = 103"
       "q_tasks (queue (state_at 90 (chain_upto 90 101))) = []"
    by (simp_all add: state_at_def chain_block_def sample_block_def rpcBlockToLightBlock_def)
  from gap_fill_enqueues_missing[OF hon res]
  have "\<exists>bs. map number bs = [Suc (number (rpcBlockToLightBlock (chain_block 100)))..<number (chain_block 103)]
           \<and> q_tasks (queue (fst (handle_gap (env_numbers {}) (state_at 90 (chain_upto 90 101))
                           (rpcBlockToLightBlock (chain_block 100)) (chain_block 103))))
             = q_tasks (queue (state_at 90 (chain_upto 90 101))) @ map (\<lambda>x. (block_priority x, x)) (bs @ [chain_block 103])"
    by blast
  then show ?thesis by (simp add: n)
qed

text \<open>
  C11. Gap fill failure: the gap fill of a task fails exactly when the
  endpoint does not serve one of the missing numbers; the error then names
  such a number and the state is left as it was (every fetch completes
  before anything is queued). Which missing number is reported depends on
  which of the parallel fetches fails first; the model reports the lowest,
  and the statement holds for any choice.
\<close>

theorem gap_fill_failure:
  "(snd (handle_gap env s h b) \<noteq> None \<longleftrightarrow>
      (\<exists>n. number h < n \<and> n < number b \<and> rpc_block_by_number env n = None))
   \<and> (\<forall>s' e. handle_gap env s h b = (s', Some e) \<longrightarrow>
        s' = s \<and> (\<exists>n. e = FailedToFetchBlockNumber n \<and> number h < n \<and> n < number b
                      \<and> rpc_block_by_number env n = None))"
proof -
  let ?ns = "[Suc (number h)..<number b]"
  have fail: "fetch_block_number env n = Inl e \<longleftrightarrow> rpc_block_by_number env n = None \<and> e = FailedToFetchBlockNumber n"
    for n e by (auto simp: fetch_block_number_def split: option.splits)
  have inl: "(\<exists>e. map_result (fetch_block_number env) ?ns = Inl e) \<longleftrightarrow>
             (\<exists>n \<in> set ?ns. \<exists>e. fetch_block_number env n = Inl e)"
  proof
    assume "\<exists>e. map_result (fetch_block_number env) ?ns = Inl e"
    then show "\<exists>n \<in> set ?ns. \<exists>e. fetch_block_number env n = Inl e" by (blast dest: map_result_Inl)
  next
    assume "\<exists>n \<in> set ?ns. \<exists>e. fetch_block_number env n = Inl e"
    then obtain n e where n: "n \<in> set ?ns" "fetch_block_number env n = Inl e" by blast
    show "\<exists>e. map_result (fetch_block_number env) ?ns = Inl e"
    proof (cases "map_result (fetch_block_number env) ?ns")
      case (Inr ys)
      then have "\<forall>i<length ?ns. fetch_block_number env (?ns ! i) = Inr (ys ! i)"
        by (auto simp: map_result_Inr_iff list_all2_conv_all_nth)
      moreover obtain i where "i < length ?ns" "?ns ! i = n"
        using n(1) by (metis in_set_conv_nth)
      ultimately have "\<exists>y. fetch_block_number env n = Inr y" by auto
      with n(2) show ?thesis by simp
    qed simp
  qed
  have "snd (handle_gap env s h b) \<noteq> None \<longleftrightarrow> (\<exists>e. map_result (fetch_block_number env) ?ns = Inl e)"
    by (auto simp: handle_gap_def split: sum.splits)
  also have "\<dots> \<longleftrightarrow> (\<exists>n. number h < n \<and> n < number b \<and> rpc_block_by_number env n = None)"
    using inl fail by (auto simp: Suc_le_eq)
  finally have iff: "snd (handle_gap env s h b) \<noteq> None \<longleftrightarrow>
      (\<exists>n. number h < n \<and> n < number b \<and> rpc_block_by_number env n = None)" .
  have "handle_gap env s h b = (s', Some e) \<Longrightarrow>
        s' = s \<and> (\<exists>n. e = FailedToFetchBlockNumber n \<and> number h < n \<and> n < number b
                      \<and> rpc_block_by_number env n = None)" for s' e
  proof -
    assume r: "handle_gap env s h b = (s', Some e)"
    then have mr: "map_result (fetch_block_number env) ?ns = Inl e" and s': "s' = s"
      by (auto simp: handle_gap_def split: sum.splits)
    obtain n where "n \<in> set ?ns" "fetch_block_number env n = Inl e" using map_result_Inl[OF mr] by blast
    with s' fail show ?thesis by auto
  qed
  with iff show ?thesis by blast
qed

theorem gap_fill_failure_witness:
  "\<exists>n. 100 < n \<and> n < 104 \<and> rpc_block_by_number (env_numbers {102}) n = None"
proof -
  have "snd (handle_gap (env_numbers {102}) (state_at 90 (chain_upto 90 101))
           (rpcBlockToLightBlock (chain_block 100)) (chain_block 104)) \<noteq> None"
    by (simp add: handle_gap_def fetch_block_number_def env_numbers_def env_logs_def chain_block_def
                  sample_block_def rpcBlockToLightBlock_def upt_rec)
  with gap_fill_failure[of "env_numbers {102}" "state_at 90 (chain_upto 90 101)"
      "rpcBlockToLightBlock (chain_block 100)" "chain_block 104"]
  show ?thesis by (simp add: chain_block_def sample_block_def rpcBlockToLightBlock_def)
qed

section \<open>Deep reorgs, start and the finality count\<close>

text \<open>The walk up a fork of consecutive numbers none of whose parents is on the
  local chain reaches the finalized number, one fetch per block.\<close>

lemma walk_no_ancestor:
  assumes fork: "\<forall>n. fin < n \<and> n \<le> N \<longrightarrow> find (\<lambda>x. hash x = parentHash (par n)) chain = None
                    \<and> rpc_block_by_hash env (parentHash (par n)) = Some (par (n - 1))"
    and nums: "\<forall>n. fin \<le> n \<and> n \<le> N \<longrightarrow> number (par n) = n"
  shows "fin \<le> n \<Longrightarrow> n \<le> N \<Longrightarrow> reorg_walk env fin chain canon (rpcBlockToLightBlock (par n)) d
           = Some (NoCommonAncestor (d + (n - fin)))"
proof (induction "n - fin" arbitrary: n canon d)
  case 0
  then have "number (par n) = fin" using nums by simp
  then show ?case using 0 by (simp add: reorg_walk_unfold rpcBlockToLightBlock_def)
next
  case (Suc k)
  then have n: "fin < n" "fin \<le> n - 1" "n - 1 \<le> N" "k = n - 1 - fin" by simp_all
  have "number (par n) = n" using nums Suc.prems by simp
  then have "reorg_walk env fin chain canon (rpcBlockToLightBlock (par n)) d =
        reorg_walk env fin chain (par (n - 1) # canon) (rpcBlockToLightBlock (par (n - 1))) (Suc d)"
    using n(1) fork Suc.prems by (simp add: reorg_walk_unfold(4) rpcBlockToLightBlock_def)
  also have "\<dots> = Some (NoCommonAncestor (Suc d + (n - 1 - fin)))"
    using Suc.hyps(1)[of "n - 1"] n by simp
  finally show ?case using n by simp
qed

text \<open>
  C25. Deep reorg (case 5): when the new block tops a fork of consecutive
  numbers whose parents, served by the endpoint, never meet the local chain
  down to the finalized number, the worker fetches exactly
  \<open>number - finalizedBlockNumber\<close> parents and emits \<open>deepReorg\<close> at the
  block's number with that depth, leaving the local chain, the store and the
  queue unchanged (spec scenario 5 is the instance 150, 100, 50).
\<close>

theorem deep_reorg_depth:
  assumes fork: "\<forall>n. finalizedBlockNumber s < n \<and> n \<le> number b \<longrightarrow>
                    find (\<lambda>x. hash x = parentHash (par n)) (blocks s) = None
                    \<and> rpc_block_by_hash env (parentHash (par n)) = Some (par (n - 1))"
    and nums: "\<forall>n. finalizedBlockNumber s \<le> n \<and> n \<le> number b \<longrightarrow> number (par n) = n"
    and top: "par (number b) = b" and le: "finalizedBlockNumber s \<le> number b"
  shows "handle_reorg env s b =
           Some (s\<lparr>events := events s @ [DeepReorg (number b) (number b - finalizedBlockNumber s)]\<rparr>, None)"
proof -
  have "reorg_walk env (finalizedBlockNumber s) (blocks s) [b] (rpcBlockToLightBlock (par (number b))) 0
          = Some (NoCommonAncestor (0 + (number b - finalizedBlockNumber s)))"
    by (rule walk_no_ancestor[OF fork nums le order_refl])
  then show ?thesis using top by (simp add: handle_reorg_def)
qed

theorem deep_reorg_depth_witness:
  "handle_reorg env_fork (state_at 100 (chain_upto 100 150)) (fork_block 150) =
     Some ((state_at 100 (chain_upto 100 150))\<lparr>events := [DeepReorg 150 50]\<rparr>, None)"
proof -
  have hs: "\<forall>x \<in> set (chain_upto 100 150). \<forall>k. hash x \<noteq> replicate k CHR ''f''"
    by (auto simp: chain_upto_def chain_block_def sample_block_def rpcBlockToLightBlock_def replicate_eq_replicate)
  have fork: "\<forall>n. finalizedBlockNumber (state_at 100 (chain_upto 100 150)) < n \<and> n \<le> number (fork_block 150) \<longrightarrow>
      find (\<lambda>x. hash x = parentHash (fork_block n)) (blocks (state_at 100 (chain_upto 100 150))) = None
      \<and> rpc_block_by_hash env_fork (parentHash (fork_block n)) = Some (fork_block (n - 1))"
    using hs by (auto simp: find_None_iff state_at_def fork_block_def sample_block_def env_fork_def env_logs_def)
  have nums: "\<forall>n. finalizedBlockNumber (state_at 100 (chain_upto 100 150)) \<le> n \<and> n \<le> number (fork_block 150)
      \<longrightarrow> number (fork_block n) = n"
    by (simp add: fork_block_def sample_block_def)
  have top: "fork_block (number (fork_block 150)) = fork_block 150"
    and le: "finalizedBlockNumber (state_at 100 (chain_upto 100 150)) \<le> number (fork_block 150)"
    by (simp_all add: fork_block_def sample_block_def state_at_def)
  from deep_reorg_depth[OF fork nums top le] show ?thesis
    by (simp add: state_at_def fork_block_def sample_block_def)
qed

text \<open>
  C26. \<open>start\<close> keeps polling whenever one filter's \<open>endBlock\<close> equals the
  finalized number: the early return needs every end block strictly below
  it (the spec's section 4.4 says at most, its section 7 says below). A
  successful \<open>start\<close> then has fetched the finalized block, seeded the local
  chain with it, started the queue and begun polling.
\<close>

theorem start_polls_at_equal_endBlock:
  assumes "f \<in> set (logFilters cfg)" "filter_endBlock f = Some (finalizedBlockNumber s)"
    and "start env cfg s = Inr s'"
  shows "polling s' \<and> q_started (queue s')
         \<and> (\<exists>fb. rpc_block_by_number env (finalizedBlockNumber s) = Some fb
                \<and> blocks s' = blocks s @ [rpcBlockToLightBlock fb])"
proof -
  have "\<not> list_all (\<lambda>f. case filter_endBlock f of None \<Rightarrow> False
                          | Some e \<Rightarrow> e < finalizedBlockNumber s) (logFilters cfg)"
  proof
    assume "list_all (\<lambda>f. case filter_endBlock f of None \<Rightarrow> False
                          | Some e \<Rightarrow> e < finalizedBlockNumber s) (logFilters cfg)"
    then have "case filter_endBlock f of None \<Rightarrow> False | Some e \<Rightarrow> e < finalizedBlockNumber s"
      using assms(1) by (simp add: list_all_iff)
    then show False using assms(2) by simp
  qed
  then show ?thesis using assms(3)
    by (auto simp: start_def queue_start_def split: if_splits option.splits)
qed

theorem start_polls_at_equal_endBlock_witness:
  "\<exists>s'. start env_start (cfg_end 3) ((new_service empty_store)\<lparr>finalizedBlockNumber := 3,
          queue := add_block_task (queue (new_service empty_store)) (chain_block 5)\<rparr>) = Inr s'
        \<and> polling s'"
proof -
  let ?s = "(new_service empty_store)\<lparr>finalizedBlockNumber := 3,
              queue := add_block_task (queue (new_service empty_store)) (chain_block 5)\<rparr>"
  have f: "filter_A\<lparr>filter_endBlock := Some 3\<rparr> \<in> set (logFilters (cfg_end 3))"
    "filter_endBlock (filter_A\<lparr>filter_endBlock := Some 3\<rparr>) = Some (finalizedBlockNumber ?s)"
    by (simp_all add: cfg_end_def)
  obtain s' where st: "start env_start (cfg_end 3) ?s = Inr s'"
    by (simp add: start_def cfg_end_def cfg_c_def filter_A_def queue_size_def add_block_task_def addTask_def
                  new_service_def env_start_def)
  from start_polls_at_equal_endBlock[OF f st] st show ?thesis by blast
qed



end
