(* ===== verification/Singular.thy ===== *)
theory Singular
  imports Prelude
begin

text \<open>
  The singular field of the GraphQL server
  (\<open>src/packages/core/src/server/graphql/singular.ts\<close>): \<open>buildSingularField\<close>
  builds a field of the entity's object type with arguments \<open>id\<close> (non-null,
  of the entity's id scalar) and \<open>timestamp\<close> (\<open>Int\<close>), whose resolver returns
  \<open>null\<close> when \<open>!id\<close> holds and otherwise the store's \<open>findUnique\<close> answer for
  the entity, the id and the timestamp. The store is a parameter
  \<open>findUnique modelName id timestamp\<close>; a GraphQL type is named by a string.
  The \<open>id\<close> argument is a JavaScript value of the entity's id scalar: a
  string (\<open>String\<close>, \<open>Bytes\<close>) or a number (\<open>Int\<close>, \<open>BigInt\<close>), modelled as
  \<open>js_id\<close>. JavaScript's \<open>!id\<close> (\<open>js_falsy\<close>) is true for an absent id, the
  empty string and the number zero.
\<close>

datatype js_id = IdString string | IdNumber int

fun js_falsy :: "js_id option \<Rightarrow> bool" where
  "js_falsy None = True"
| "js_falsy (Some (IdString s)) = (s = [])"
| "js_falsy (Some (IdNumber n)) = (n = 0)"

record singular_args =
  sa_id :: "js_id option"
  sa_timestamp :: "nat option"

type_synonym 'e find_unique = "string \<Rightarrow> js_id \<Rightarrow> nat option \<Rightarrow> 'e option"

record 'e singular_field =
  sf_type :: string
  sf_args :: "(string \<times> string) list"
  sf_resolve :: "singular_args \<Rightarrow> 'e option"

definition singular_resolver :: "'e find_unique \<Rightarrow> string \<Rightarrow> singular_args \<Rightarrow> 'e option" where
  "singular_resolver findUnique entityName args =
     (if js_falsy (sa_id args) then None
      else case sa_id args of
             None \<Rightarrow> None
           | Some i \<Rightarrow> findUnique entityName i (sa_timestamp args))"

definition buildSingularField :: "string \<Rightarrow> string \<Rightarrow> string \<Rightarrow> 'e find_unique \<Rightarrow> 'e singular_field" where
  "buildSingularField entityName entityGqlType idScalar findUnique =
     \<lparr>sf_type = entityGqlType,
      sf_args = [(''id'', idScalar @ ''!''), (''timestamp'', ''Int'')],
      sf_resolve = singular_resolver findUnique entityName\<rparr>"

section \<open>The falsy ids\<close>

text \<open>The field answers a truthy id by the store's lookup; a falsy id, among them
  the legal \<open>BigInt\<close> id 0 and the empty string, is answered \<open>null\<close> whatever
  the store holds.\<close>

lemma singular_resolve_lookup:
  "sf_resolve (buildSingularField entityName ty sc findUnique) \<lparr>sa_id = Some i, sa_timestamp = t\<rparr>
     = (if js_falsy (Some i) then None else findUnique entityName i t)"
  by (simp add: buildSingularField_def singular_resolver_def)

lemma singular_zero_id_null:
  "sf_resolve (buildSingularField entityName ty ''BigInt'' findUnique) \<lparr>sa_id = Some (IdNumber 0), sa_timestamp = t\<rparr> = None"
  by (simp add: singular_resolve_lookup)

end
