(* ===== verification/Spec2Isabelle.thy ===== *)
theory Spec2Isabelle
  imports Realtime_Properties Singular
begin

text \<open>
  Verification development for the realtime-sync core of ponder: the realtime
  sync service (\<open>src/packages/core/src/realtime-sync/service.ts\<close>), the SQLite
  cache store it writes through the event store
  (\<open>src/packages/core/src/database/cache/sqliteCacheStore.ts\<close>), and the
  singular field resolver of the GraphQL server
  (\<open>src/packages/core/src/server/graphql/singular.ts\<close>).

  \<^bold>\<open>Parts and how they interact.\<close> The service keeps a local chain of
  unfinalized light blocks starting at the finalized block and a priority
  queue of full blocks served to a single worker. A poll adds the latest
  block; the worker classifies each block against the head of the local
  chain (duplicate, new head, gap, reorg), reads the endpoint (by number, by
  hash, logs of a block), screens blocks with the logs bloom, filters logs,
  and writes through the event store: matched blocks, logs and transactions
  (\<open>insertRealtimeBlock\<close>), cached block ranges per log-filter key
  (\<open>insertLogFilterCachedRanges\<close>, which merges intervals through
  \<open>insertCachedInterval\<close>) and deletions after a reorg
  (\<open>deleteRealtimeData\<close>).

  \<^bold>\<open>Theories.\<close>
  \<^item> \<open>Prelude\<close>: the model's types (hashes and addresses as strings, block
    numbers and timestamps as \<open>nat\<close>), the error type \<open>sync_error\<close> with one
    constructor per throw of the code, \<open>map_result\<close> (a \<open>Promise.all\<close> of
    fallible requests: the first failure wins), and shared list lemmas.
  \<^item> \<open>Intervals\<close>: the \<open>cachedIntervals\<close> table as a row list;
    \<open>getCachedIntervals\<close>, \<open>insertCachedInterval\<close> (a transaction: a throw is
    \<open>Inl\<close> and rolls back), the sweep \<open>merge_intervals\<close> of \<open>common/utils\<close> and
    the event store's \<open>insertLogFilterCachedRanges\<close> (both from the spec: not
    under \<open>src/\<close>). The abstraction \<open>cover\<close> maps a list of ranges to the set of
    blocks it covers; canonical lists (sorted, disjoint, non-adjacent) are
    unique for their cover, which gives idempotence and commutativity.
  \<^item> \<open>CacheStore\<close>: rows of the logs, blocks and transactions tables as
    records, the contract-call table as a map, and every read and write of
    \<open>SqliteCacheStore\<close> except \<open>migrate\<close>: a conflict-ignoring \<open>INSERT\<close> appends
    only a new key, \<open>insertLogs\<close> stores \<open>NULL\<close> timestamps that only
    \<open>insertBlock\<close> backfills, \<open>getLogs\<close> selects by timestamp window and topic.
  \<^item> \<open>Filters\<close>: the logs-bloom pre-screen and \<open>filterLogs\<close> (from the spec);
    the keccak bit selection is a parameter mask into a \<open>2048 word\<close>.
  \<^item> \<open>Queue\<close>: the task queue of \<open>utils/queue\<close> (from the spec): highest
    priority first, first in first out among equal priorities.
  \<^item> \<open>Realtime\<close>: the service state \<open>rt_state\<close> (private fields, store, emitted
    events), the endpoint as an environment record \<open>rpc\<close> (\<open>None\<close> for a null
    answer or a failed request), one definition per method and per branch of
    \<open>blockTaskWorker\<close>: \<open>setup_service\<close> (\<open>setup\<close>), \<open>start\<close>, \<open>kill\<close>,
    \<open>addNewLatestBlock\<close>, \<open>handle_new_head\<close>/\<open>accept_head\<close>/\<open>advance_finality\<close>
    (case 2), \<open>handle_gap\<close> (case 3), \<open>reorg_walk\<close>/\<open>handle_reorg\<close> (cases 4
    and 5), \<open>run_task\<close> with the queue's \<open>onError\<close>. A handler returns its
    state and an optional error; the state changes made before a throw are
    kept, as in the code. The whole service is the step relation \<open>rt_step\<close>
    (a poll, one worker task, a task during which \<open>kill\<close> lands before its
    first effect so that its additions go to the paused, cleared queue, and
    \<open>kill\<close>) and \<open>reachable\<close> its runs from
    \<open>setup\<close> and \<open>start\<close>; \<open>rt_inv\<close> is the invariant of the local chain, the
    cached intervals and the queue priorities.
  \<^item> \<open>Realtime_Invariant\<close>: per-handler lemmas (result and preservation of
    \<open>rt_inv\<close>), the invariant of every reachable state by rule induction, the
    origin of every emitted error, and termination of the reorg walk.
  \<^item> \<open>Realtime_Properties\<close>: the properties of the service, with the
    concrete endpoints and chains on which the witnesses run them (the
    spec's scenarios 2, 3, 4 and 5 are witnesses of the general theorems).
  \<^item> \<open>Singular\<close>: \<open>buildSingularField\<close> and its resolver over a store
    parameter \<open>findUnique\<close>; the \<open>id\<close> argument is a JavaScript value of
    the id scalar (\<open>js_id\<close>: a string or a number) and \<open>!id\<close> is
    \<open>js_falsy\<close> (absent, empty string, zero).

  \<^bold>\<open>What the lemmas show.\<close> Every reachable state of a service with a
  positive \<open>finalityBlockCount\<close> has a parent-linked ascending local chain
  starting at the finalized block and canonical cached intervals ending at
  or below it; the finalized number never decreases; every emitted error is
  an RPC failure. The interval merge is canonical, refines set union, is
  idempotent and order independent; each worker case does what the spec
  says (the exact results of the gap fill, the finality advance, a shallow
  reorg and a deep reorg of any depth); a gap fill fails exactly when a
  missing number is not served, whichever of its parallel fetches fails
  first; the bloom screen never loses a matched log; the queue serves the
  lowest block first. The cache store keeps logs attached to their blocks
  and its conflict-ignoring writes keep every primary key unique.

  \<^bold>\<open>Loops and fuel.\<close> The reorg \<open>while\<close> loop is a \<open>partial_function
  (option)\<close>: \<open>None\<close> is non-termination. It returns whenever the endpoint
  serves parents of decreasing number (\<open>rpc_parents_descend\<close>), and it is
  shown not to return for a self-parent block. The merge sweep is a
  structural recursion; no fuel is used.

  \<^bold>\<open>Findings.\<close> \<open>start\<close> keeps polling when an end block equals the
  finalized number (strict comparison); a failing latest-block fetch in a
  shallow reorg leaves the chain truncated and the data deleted, unlike the
  spec's section 5; with \<open>finalityBlockCount = 0\<close> every head writes the
  inverted cached range \<open>[f + 1, f]\<close>; the reorg loop has no bound; a
  falsy id of the singular field (the empty string, or the \<open>BigInt\<close> 0 of
  the example schema) never reaches the store; logs inserted after their block are
  never returned by \<open>getLogs\<close>.

  \<^bold>\<open>Not modelled.\<close> \<open>migrate\<close> (DDL: it fixes the column sets the row
  records model), logging and metrics (no effect on state), the hex and
  decimal encoders of \<open>./mappers\<close> (the identity on the model's values), the
  poll timer (a poll is a step), a \<open>kill\<close> that lands in the middle of a
  task after some of its effects (a step is otherwise atomic), \<open>onIdle\<close>,
  the concurrency limit of 10 of the
  gap fetches and which of them fails first (all results are collected
  before any mutation; the model reports the lowest failing number, and the
  gap-failure theorem holds for any choice), the \<open>chainId\<close> column of the event store, the
  keccak-256 hash of the bloom, and the files that are not code
  (\<open>package.json\<close>, the example schema, the documentation).
\<close>

end
